theory Spec2Isabelle
  imports Complex_Main "HOL-Library.AList"
begin

section \<open>Exceptions\<close>

text \<open>
  Every exception the processing code can meet is a value: the class of the exception and
  the text that \<^verbatim>\<open>str(e)\<close> gives. The batch runner formats that text into its error list.
\<close>

datatype exc_class =
  FileNotFoundError | IsADirectoryError | NotADirectoryError | FileExistsError | PermissionError
  | UnidentifiedImageError | IndexError | TypeError | ValueError | OSError

type_synonym error = "exc_class \<times> string"

definition str_of :: "error \<Rightarrow> string" where
  "str_of e = snd e"

section \<open>Raster images as Pillow presents them\<close>

text \<open>
  An image has a mode, a size, the \<^verbatim>\<open>transparency\<close> entry of its \<^verbatim>\<open>info\<close> dictionary as
  Pillow's readers set it (absent, a single key colour or palette index, or the alpha bytes of
  a palette with more than one transparent or partly transparent entry) and its pixels, row
  by row. A pixel is kept as the four values that the image shows as red, green, blue and
  opacity: in mode RGB the first three are the stored channels, in the modes that have no
  alpha band and no transparency entry the fourth is 255.
\<close>

datatype mode = Mode_1 | Mode_L | Mode_LA | Mode_P | Mode_PA | Mode_RGB | Mode_RGBA | Mode_CMYK

datatype trns = TrnsKey | TrnsBytes

type_synonym rgba = "int \<times> int \<times> int \<times> int"

record image =
  mode :: mode
  width :: nat
  height :: nat
  transparency :: "trns option"
  data :: "rgba list list"

fun getbands :: "mode \<Rightarrow> string list" where
  "getbands Mode_1 = [''1'']"
| "getbands Mode_L = [''L'']"
| "getbands Mode_LA = [''L'', ''A'']"
| "getbands Mode_P = [''P'']"
| "getbands Mode_PA = [''P'', ''A'']"
| "getbands Mode_RGB = [''R'', ''G'', ''B'']"
| "getbands Mode_RGBA = [''R'', ''G'', ''B'', ''A'']"
| "getbands Mode_CMYK = [''C'', ''M'', ''Y'', ''K'']"

definition pixel_at :: "image \<Rightarrow> nat \<Rightarrow> nat \<Rightarrow> rgba" where
  "pixel_at img x y = data img ! y ! x"

definition alpha_at :: "image \<Rightarrow> nat \<Rightarrow> nat \<Rightarrow> int" where
  "alpha_at img x y = (case pixel_at img x y of (r, g, b, a) \<Rightarrow> a)"

definition rgb_at :: "image \<Rightarrow> nat \<Rightarrow> nat \<Rightarrow> int \<times> int \<times> int" where
  "rgb_at img x y = (case pixel_at img x y of (r, g, b, a) \<Rightarrow> (r, g, b))"

text \<open>\<^verbatim>\<open>_has_alpha\<close>: an alpha band, or palette transparency.\<close>

definition has_alpha :: "image \<Rightarrow> bool" where
  "has_alpha img =
     (if ''A'' \<in> set (getbands (mode img)) then True
      else transparency img \<noteq> None)"

text \<open>
  The raster is well formed when it has \<open>height\<close> rows of \<open>width\<close> pixels, and every pixel is
  opaque unless the image has an alpha band or a transparency entry.
\<close>

definition wf_image :: "image \<Rightarrow> bool" where
  "wf_image img =
     (length (data img) = height img
      \<and> list_all (\<lambda>row. length row = width img) (data img)
      \<and> (has_alpha img
          \<or> list_all (list_all (\<lambda>p. case p of (r, g, b, a) \<Rightarrow> a = 255)) (data img)))"

section \<open>The detector\<close>

text \<open>
  \<^verbatim>\<open>px[x,y]\<close> followed by \<^verbatim>\<open>r,g,b = rgb\<close>: the access raises outside the raster, and the
  unpacking raises unless the pixel is a triple, which among the modes above is mode RGB only.
\<close>

definition px_unpack :: "image \<Rightarrow> nat \<Rightarrow> nat \<Rightarrow> error + (int \<times> int \<times> int)" where
  "px_unpack img x y =
     (if \<not> (x < width img \<and> y < height img)
      then Inl (IndexError, ''image index out of range'')
      else if length (getbands (mode img)) = 1
      then Inl (TypeError, ''cannot unpack non-iterable int object'')
      else if length (getbands (mode img)) < 3
      then Inl (ValueError, ''not enough values to unpack (expected 3, got 2)'')
      else if length (getbands (mode img)) > 3
      then Inl (ValueError, ''too many values to unpack (expected 3)'')
      else Inr (rgb_at img x y))"

fun is_bg :: "string \<Rightarrow> int \<Rightarrow> int \<times> int \<times> int \<Rightarrow> bool" where
  "is_bg color_type thr (r, g, b) =
     (if color_type = ''black''
      then r \<le> thr \<and> g \<le> thr \<and> b \<le> thr
      else r \<ge> 255 - thr \<and> g \<ge> 255 - thr \<and> b \<ge> 255 - thr)"

text \<open>\<^verbatim>\<open>any(not is_bg(px[x,y]) for ...)\<close> over the coordinates of one column or one row.\<close>

fun any_not_bg :: "image \<Rightarrow> string \<Rightarrow> int \<Rightarrow> (nat \<times> nat) list \<Rightarrow> error + bool" where
  "any_not_bg img color_type thr [] = Inr False"
| "any_not_bg img color_type thr ((x, y) # rest) =
     (case px_unpack img x y of
        Inl e \<Rightarrow> Inl e
      | Inr rgb \<Rightarrow>
          if \<not> is_bg color_type thr rgb then Inr True
          else any_not_bg img color_type thr rest)"

text \<open>A \<^verbatim>\<open>for\<close> loop that stops at the first index whose test holds.\<close>

fun first_hit :: "(nat \<Rightarrow> error + bool) \<Rightarrow> nat list \<Rightarrow> error + nat option" where
  "first_hit test [] = Inr None"
| "first_hit test (i # rest) =
     (case test i of
        Inl e \<Rightarrow> Inl e
      | Inr hit \<Rightarrow> if hit then Inr (Some i) else first_hit test rest)"

text \<open>
  The two loops of one axis: upwards from 0 for the low edge, downwards from \<open>n - 1\<close> for the
  high edge; an edge that meets no content keeps its initial value, 0 or \<open>n\<close>.
\<close>

definition scan_axis :: "(nat \<Rightarrow> error + bool) \<Rightarrow> nat \<Rightarrow> error + (int \<times> int)" where
  "scan_axis test n =
     (case first_hit test [0..<n] of
        Inl e \<Rightarrow> Inl e
      | Inr lo \<Rightarrow>
          (case first_hit test (rev [0..<n]) of
             Inl e \<Rightarrow> Inl e
           | Inr hi \<Rightarrow>
               Inr (case lo of None \<Rightarrow> 0 | Some i \<Rightarrow> int i,
                    case hi of None \<Rightarrow> int n | Some i \<Rightarrow> int i + 1)))"

definition clamp_box :: "int \<Rightarrow> int \<Rightarrow> int \<times> int \<Rightarrow> int \<times> int \<Rightarrow> int \<times> int \<times> int \<times> int" where
  "clamp_box w h lr tb =
     (case lr of (left0, right0) \<Rightarrow> case tb of (top0, bottom0) \<Rightarrow>
        let left = max 0 (min left0 (w - 1));
            right = max (left + 1) (min right0 w);
            top = max 0 (min top0 (h - 1));
            bottom = max (top + 1) (min bottom0 h)
        in (left, right, top, bottom))"

definition detect_whitespace_thr ::
  "image \<Rightarrow> string \<Rightarrow> string \<Rightarrow> int \<Rightarrow> error + (int \<times> int \<times> int \<times> int)" where
  "detect_whitespace_thr img_rgb color_type direction thr =
     (let w = width img_rgb; h = height img_rgb in
      case (if direction \<in> set [''horizontal'', ''both'']
            then scan_axis
                   (\<lambda>x. any_not_bg img_rgb color_type thr (map (\<lambda>y. (x, y)) [0..<h])) w
            else Inr (0, int w)) of
        Inl e \<Rightarrow> Inl e
      | Inr lr \<Rightarrow>
          (case (if direction \<in> set [''vertical'', ''both'']
                 then scan_axis
                        (\<lambda>y. any_not_bg img_rgb color_type thr (map (\<lambda>x. (x, y)) [0..<w])) h
                 else Inr (0, int h)) of
             Inl e \<Rightarrow> Inl e
           | Inr tb \<Rightarrow> Inr (clamp_box (int w) (int h) lr tb)))"

text \<open>The keyword parameter \<^verbatim>\<open>thr: int = 70\<close>: \<open>None\<close> is a call that leaves it out.\<close>

definition detect_whitespace ::
  "image \<Rightarrow> string \<Rightarrow> string \<Rightarrow> int option \<Rightarrow> error + (int \<times> int \<times> int \<times> int)" where
  "detect_whitespace img_rgb color_type direction thr =
     detect_whitespace_thr img_rgb color_type direction (case thr of None \<Rightarrow> 70 | Some t \<Rightarrow> t)"

section \<open>The Pillow operations the program calls\<close>

text \<open>
  \<^verbatim>\<open>Image.new(mode, size, color)\<close>: a raster of one colour with an empty \<^verbatim>\<open>info\<close>; a negative
  size raises.
\<close>

definition image_new :: "mode \<Rightarrow> nat \<Rightarrow> nat \<Rightarrow> rgba \<Rightarrow> image" where
  "image_new m w h fill =
     \<lparr>mode = m, width = w, height = h, transparency = None,
      data = replicate h (replicate w fill)\<rparr>"

definition image_new_checked :: "mode \<Rightarrow> int \<Rightarrow> int \<Rightarrow> rgba \<Rightarrow> error + image" where
  "image_new_checked m w h fill =
     (if w < 0 \<or> h < 0 then Inl (ValueError, ''Width and height must be >= 0'')
      else Inr (image_new m (nat w) (nat h) fill))"

text \<open>
  \<^verbatim>\<open>convert("RGBA")\<close>: the pixels keep the colour and opacity they show. A transparency entry of
  a mode without alpha band has become the alpha band and leaves \<^verbatim>\<open>info\<close>.
\<close>

definition convert_RGBA :: "image \<Rightarrow> image" where
  "convert_RGBA img =
     img\<lparr>mode := Mode_RGBA,
         transparency :=
           (if mode img \<in> set [Mode_1, Mode_L, Mode_RGB, Mode_P] then None
            else transparency img)\<rparr>"

text \<open>
  \<^verbatim>\<open>convert("RGB")\<close>: an image already in mode RGB is copied. An alpha band is dropped, and so
  is a palette's per-entry alpha (which cannot be one key colour); a key colour stays in
  \<^verbatim>\<open>info\<close>, translated to RGB.
\<close>

definition opaque :: "rgba \<Rightarrow> rgba" where
  "opaque p = (case p of (r, g, b, a) \<Rightarrow> (r, g, b, 255))"

definition convert_RGB :: "image \<Rightarrow> image" where
  "convert_RGB img =
     (if mode img = Mode_RGB then img
      else if ''A'' \<in> set (getbands (mode img))
      then img\<lparr>mode := Mode_RGB, data := map (map opaque) (data img)\<rparr>
      else if mode img \<in> set [Mode_L, Mode_P] \<and> transparency img = Some TrnsBytes
      then img\<lparr>mode := Mode_RGB, transparency := None, data := map (map opaque) (data img)\<rparr>
      else img\<lparr>mode := Mode_RGB\<rparr>)"

text \<open>
  \<^verbatim>\<open>crop((left, upper, right, lower))\<close>: mode and \<^verbatim>\<open>info\<close> are kept; what lies outside the source
  reads as zero in every band (palette entry 0 is taken to be black).
\<close>

fun zero_pixel :: "mode \<Rightarrow> rgba" where
  "zero_pixel Mode_CMYK = (255, 255, 255, 255)"
| "zero_pixel m = (0, 0, 0, if ''A'' \<in> set (getbands m) then 0 else 255)"

definition source_pixel :: "image \<Rightarrow> int \<Rightarrow> int \<Rightarrow> rgba" where
  "source_pixel img x y =
     (if 0 \<le> x \<and> x < int (width img) \<and> 0 \<le> y \<and> y < int (height img)
      then pixel_at img (nat x) (nat y)
      else zero_pixel (mode img))"

definition crop :: "image \<Rightarrow> int \<times> int \<times> int \<times> int \<Rightarrow> error + image" where
  "crop img box =
     (case box of (x0, y0, x1, y1) \<Rightarrow>
        if x1 < x0 then Inl (ValueError, ''Coordinate right is less than left'')
        else if y1 < y0 then Inl (ValueError, ''Coordinate lower is less than upper'')
        else Inr (img\<lparr>width := nat (x1 - x0), height := nat (y1 - y0),
                       data := map (\<lambda>y. map (\<lambda>x. source_pixel img (x0 + int x) (y0 + int y))
                                            [0..<nat (x1 - x0)])
                                   [0..<nat (y1 - y0)]\<rparr>))"

text \<open>
  \<^verbatim>\<open>dst.paste(im, (ox, oy), mask)\<close> onto a canvas made by \<^verbatim>\<open>Image.new\<close> in mode RGB or RGBA, the
  only destinations of this program. A source of another mode is converted to the canvas mode.
  Without mask the pixels are copied; with a mask (here always an RGBA image of the source's
  size) every band is blended by the mask's alpha, in Pillow's integer arithmetic.
\<close>

definition div255 :: "int \<Rightarrow> int" where
  "div255 a = (let tmp = a + 128 in ((tmp div 256) + tmp) div 256)"

definition blend :: "int \<Rightarrow> int \<Rightarrow> int \<Rightarrow> int" where
  "blend m in1 in2 = div255 (in1 * (255 - m) + in2 * m)"

definition store :: "mode \<Rightarrow> rgba \<Rightarrow> rgba" where
  "store m p = (if ''A'' \<in> set (getbands m) then p else opaque p)"

definition blend_pixel :: "int \<Rightarrow> rgba \<Rightarrow> rgba \<Rightarrow> rgba" where
  "blend_pixel m p q =
     (case p of (r1, g1, b1, a1) \<Rightarrow> case q of (r2, g2, b2, a2) \<Rightarrow>
        (blend m r1 r2, blend m g1 g2, blend m b1 b2, blend m a1 a2))"

definition paste :: "image \<Rightarrow> image \<Rightarrow> int \<times> int \<Rightarrow> image option \<Rightarrow> image" where
  "paste dst im offset matte =
     (case offset of (ox, oy) \<Rightarrow>
        let src = (if mode im = mode dst then im
                   else if mode dst = Mode_RGBA then convert_RGBA im else convert_RGB im)
        in dst\<lparr>data :=
             map (\<lambda>y. map (\<lambda>x.
                    let sx = int x - ox; sy = int y - oy in
                    if 0 \<le> sx \<and> sx < int (width src) \<and> 0 \<le> sy \<and> sy < int (height src)
                    then (case matte of
                            None \<Rightarrow> store (mode dst) (pixel_at src (nat sx) (nat sy))
                          | Some mk \<Rightarrow>
                              store (mode dst)
                                (blend_pixel (alpha_at mk (nat sx) (nat sy))
                                   (pixel_at dst x y) (pixel_at src (nat sx) (nat sy))))
                    else pixel_at dst x y)
                  [0..<width dst])
               [0..<height dst]\<rparr>)"

section \<open>The compositor\<close>

text \<open>\<^verbatim>\<open>_rgb_for_detection\<close>: the RGB view that is measured and never saved.\<close>

definition rgb_for_detection :: "image \<Rightarrow> string \<Rightarrow> image" where
  "rgb_for_detection img color_type =
     (if has_alpha img
      then
        let bg = (if color_type = ''white'' then (255, 255, 255, 255) else (0, 0, 0, 255));
            base = image_new Mode_RGBA (width img) (height img) bg;
            tmp = convert_RGBA img;
            base = paste base tmp (0, 0) (Some tmp)
        in convert_RGB base
      else convert_RGB img)"

text \<open>
  \<^verbatim>\<open>int(x)\<close> of a float truncates towards zero. The float quotient \<^verbatim>\<open>w * p / 100.0\<close> is taken
  as the exact quotient: both have the same integer part as long as \<open>w * p\<close> stays below
  \<open>2 ^ 46\<close>, far above any raster size times a percentage.
\<close>

definition py_int :: "real \<Rightarrow> int" where
  "py_int x = (if x \<ge> 0 then \<lfloor>x\<rfloor> else \<lceil>x\<rceil>)"

text \<open>Lines 86 to 94 of \<^verbatim>\<open>trim_whitespace\<close>: the canvas with the margin around the crop.\<close>

definition add_margin ::
  "image \<Rightarrow> nat \<Rightarrow> nat \<Rightarrow> int \<Rightarrow> int \<times> int \<times> int \<times> int \<Rightarrow> error + image" where
  "add_margin cropped w h keep_margin_percent box =
     (case box of (l, r, t, b) \<Rightarrow>
        let mw = py_int (real_of_int (int w * keep_margin_percent) / 100);
            mh = py_int (real_of_int (int h * keep_margin_percent) / 100);
            nw = (r - l) + 2 * mw;
            nh = (b - t) + 2 * mh
        in case (if has_alpha cropped
                 then image_new_checked Mode_RGBA nw nh (0, 0, 0, 0)
                 else image_new_checked Mode_RGB nw nh (255, 255, 255, 255)) of
             Inl e \<Rightarrow> Inl e
           | Inr canvas \<Rightarrow>
               Inr (paste canvas cropped (mw, mh)
                      (if mode cropped = Mode_RGBA then Some cropped else None)))"

text \<open>Lines 83 to 94: crop the original to the box, then add the margin if one is asked for.\<close>

definition finish_trim :: "image \<Rightarrow> int \<Rightarrow> int \<times> int \<times> int \<times> int \<Rightarrow> error + image" where
  "finish_trim orig keep_margin_percent box =
     (case box of (l, r, t, b) \<Rightarrow>
        case crop orig (l, t, r, b) of
          Inl e \<Rightarrow> Inl e
        | Inr cropped \<Rightarrow>
            if keep_margin_percent > 0
            then add_margin cropped (width orig) (height orig) keep_margin_percent box
            else Inr cropped)"

text \<open>Lines 78 to 94: the final image, before it is handed to the encoder.\<close>

definition trim_final :: "image \<Rightarrow> int \<Rightarrow> string \<Rightarrow> string \<Rightarrow> error + image" where
  "trim_final orig keep_margin_percent color_type direction =
     (let det = rgb_for_detection orig color_type in
      case detect_whitespace det color_type direction (Some 70) of
        Inl e \<Rightarrow> Inl e
      | Inr box \<Rightarrow> finish_trim orig keep_margin_percent box)"

text \<open>Lines 99 to 106: what is handed to \<^verbatim>\<open>save\<close>, by the lower-cased extension.\<close>

definition for_encoder :: "string \<Rightarrow> image \<Rightarrow> image" where
  "for_encoder ext cropped =
     (if ext \<in> set [''.jpg'', ''.jpeg'', ''.bmp'']
      then (if has_alpha cropped \<or> mode cropped \<notin> set [Mode_RGB, Mode_L]
            then convert_RGB cropped else cropped)
      else cropped)"

section \<open>Paths\<close>

text \<open>
  The functions of \<^verbatim>\<open>os.path\<close> the program calls, as \<^verbatim>\<open>posixpath\<close> defines them, and
  \<^verbatim>\<open>str.lower\<close> and \<^verbatim>\<open>str.endswith\<close> on ASCII text.
\<close>

definition rfind :: "char \<Rightarrow> string \<Rightarrow> int" where
  "rfind c s =
     (case find (\<lambda>i. s ! i = c) (rev [0..<length s]) of
        None \<Rightarrow> - 1
      | Some i \<Rightarrow> int i)"

definition basename :: "string \<Rightarrow> string" where
  "basename p = drop (nat (rfind CHR ''/'' p + 1)) p"

definition dirname :: "string \<Rightarrow> string" where
  "dirname p =
     (let head = take (nat (rfind CHR ''/'' p + 1)) p in
      if head \<noteq> [] \<and> head \<noteq> replicate (length head) CHR ''/''
      then rev (dropWhile (\<lambda>c. c = CHR ''/'') (rev head))
      else head)"

definition path_join :: "string \<Rightarrow> string \<Rightarrow> string" where
  "path_join a b =
     (if b \<noteq> [] \<and> hd b = CHR ''/'' then b
      else if a = [] \<or> last a = CHR ''/'' then a @ b
      else a @ ''/'' @ b)"

definition splitext :: "string \<Rightarrow> string \<times> string" where
  "splitext p =
     (let sepIndex = rfind CHR ''/'' p; dotIndex = rfind CHR ''.'' p in
      if dotIndex > sepIndex
         \<and> list_ex (\<lambda>k. p ! k \<noteq> CHR ''.'') [nat (sepIndex + 1)..<nat dotIndex]
      then (take (nat dotIndex) p, drop (nat dotIndex) p)
      else (p, []))"

definition lower_char :: "char \<Rightarrow> char" where
  "lower_char c =
     (case map_of (zip ''ABCDEFGHIJKLMNOPQRSTUVWXYZ'' ''abcdefghijklmnopqrstuvwxyz'') c of
        None \<Rightarrow> c
      | Some d \<Rightarrow> d)"

definition str_lower :: "string \<Rightarrow> string" where
  "str_lower s = map lower_char s"

definition endswith :: "string \<Rightarrow> string list \<Rightarrow> bool" where
  "endswith s suffixes =
     list_ex (\<lambda>suf. length suf \<le> length s \<and> drop (length s - length suf) s = suf) suffixes"

definition SUPPORTED_EXTS :: "string list" where
  "SUPPORTED_EXTS = [''.png'', ''.jpg'', ''.jpeg'', ''.bmp'', ''.gif'', ''.tiff'', ''.webp'']"

section \<open>Files\<close>

text \<open>
  The world a run meets. Paths are compared as strings, so the model speaks of normalised
  paths. A file holds an image (what \<^verbatim>\<open>Image.open\<close> returns for it) or something that is no
  image. The directory listing that \<^verbatim>\<open>os.walk\<close> yields is given with the file system: for a
  start directory, the \<^verbatim>\<open>(root, dirs, files)\<close> triples in the order of the walk. \<open>denied\<close> lists
  the files that may not be opened and the directories in which nothing may be created
  (\<^verbatim>\<open>.\<close> for the working directory). The last three fields belong to Pillow as the run finds
  it: the extensions that plugins beyond the six formats below have registered for writing,
  the modes those writers refuse, and, for a writer that does not store its image exactly,
  the image that opening the written file returns.
\<close>

datatype file_content = ImageFile image | OtherFile

record filesystem =
  dirs :: "string list"
  files :: "(string \<times> file_content) list"
  walk :: "string \<Rightarrow> (string \<times> string list \<times> string list) list"
  denied :: "string list"
  more_formats :: "string \<Rightarrow> string option"
  refuses :: "string \<Rightarrow> mode \<Rightarrow> bool"
  reread :: "string \<Rightarrow> image \<Rightarrow> image"

definition isdir :: "filesystem \<Rightarrow> string \<Rightarrow> bool" where
  "isdir fs p = (p \<in> set (dirs fs) \<or> p = ''/'')"

definition isfile :: "filesystem \<Rightarrow> string \<Rightarrow> bool" where
  "isfile fs p = (map_of (files fs) p \<noteq> None)"

definition path_exists :: "filesystem \<Rightarrow> string \<Rightarrow> bool" where
  "path_exists fs p = (isdir fs p \<or> isfile fs p)"

text \<open>The directories above a path, nearest first.\<close>

function ancestors :: "string \<Rightarrow> string list" where
  "ancestors p =
     (if dirname p \<noteq> [] \<and> length (dirname p) < length p
      then dirname p # ancestors (dirname p)
      else [])"
  by pat_completeness auto
termination
  by (relation "measure length") auto

text \<open>
  \<^verbatim>\<open>repr\<close> of a string of printable ASCII, and the text of an \<^verbatim>\<open>OSError\<close> raised for a path:
  \<^verbatim>\<open>[Errno n] message: 'path'\<close>.
\<close>

definition py_repr :: "string \<Rightarrow> string" where
  "py_repr s =
     (let q = (if CHR 0x27 \<in> set s \<and> CHR 0x22 \<notin> set s then CHR 0x22 else CHR 0x27)
      in q # concat (map (\<lambda>c. if c = CHR 0x5C then [CHR 0x5C, CHR 0x5C]
                                 else if c = q then [CHR 0x5C, q]
                                 else [c]) s) @ [q])"

fun errno_text :: "exc_class \<Rightarrow> string" where
  "errno_text FileNotFoundError = ''[Errno 2] No such file or directory: ''"
| "errno_text PermissionError = ''[Errno 13] Permission denied: ''"
| "errno_text FileExistsError = ''[Errno 17] File exists: ''"
| "errno_text NotADirectoryError = ''[Errno 20] Not a directory: ''"
| "errno_text IsADirectoryError = ''[Errno 21] Is a directory: ''"
| "errno_text c = []"

definition os_error :: "exc_class \<Rightarrow> string \<Rightarrow> error" where
  "os_error c p = (c, errno_text c @ py_repr p)"

text \<open>Whether the directory that holds a path refuses new entries.\<close>

definition parent_denied :: "filesystem \<Rightarrow> string \<Rightarrow> bool" where
  "parent_denied fs p = ((if dirname p = [] then ''.'' else dirname p) \<in> set (denied fs))"

text \<open>\<^verbatim>\<open>Image.open(path)\<close>.\<close>

definition image_open :: "filesystem \<Rightarrow> string \<Rightarrow> error + image" where
  "image_open fs p =
     (case map_of (files fs) p of
        None \<Rightarrow>
          if isdir fs p then Inl (os_error IsADirectoryError p)
          else if list_ex (isfile fs) (ancestors p) then Inl (os_error NotADirectoryError p)
          else Inl (os_error FileNotFoundError p)
      | Some c \<Rightarrow>
          if p \<in> set (denied fs) then Inl (os_error PermissionError p)
          else (case c of
                  OtherFile \<Rightarrow>
                    Inl (UnidentifiedImageError, ''cannot identify image file '' @ py_repr p)
                | ImageFile img \<Rightarrow> Inr img))"

text \<open>\<^verbatim>\<open>os.mkdir(name)\<close>: the exception it raises, if any, and the file system it leaves.\<close>

definition mkdir :: "filesystem \<Rightarrow> string \<Rightarrow> error option \<times> filesystem" where
  "mkdir fs name =
     (if name = [] then (Some (os_error FileNotFoundError name), fs)
      else if list_ex (isfile fs) (ancestors name)
      then (Some (os_error NotADirectoryError name), fs)
      else if dirname name \<noteq> [] \<and> \<not> isdir fs (dirname name)
      then (Some (os_error FileNotFoundError name), fs)
      else if path_exists fs name then (Some (os_error FileExistsError name), fs)
      else if parent_denied fs name then (Some (os_error PermissionError name), fs)
      else (None, fs\<lparr>dirs := name # dirs fs\<rparr>))"

text \<open>
  \<^verbatim>\<open>os.makedirs(name, exist_ok=True)\<close>. The library recurses on the head of the name as long
  as the head does not exist, and on the way back makes each directory, the topmost first;
  \<^verbatim>\<open>FileExistsError\<close> from that part is passed over, every other exception ends the call and
  leaves what was made so far. Then it makes \<open>name\<close> itself, and an exception of that last
  \<^verbatim>\<open>mkdir\<close> is passed over when \<open>name\<close> is a directory.
\<close>

fun mkdir_each :: "filesystem \<Rightarrow> string list \<Rightarrow> error option \<times> filesystem" where
  "mkdir_each fs [] = (None, fs)"
| "mkdir_each fs (d # ds) =
     (case mkdir fs d of
        (None, fs') \<Rightarrow> mkdir_each fs' ds
      | (Some e, fs') \<Rightarrow>
          if isdir fs' d \<or> fst e = FileExistsError then mkdir_each fs' ds else (Some e, fs'))"

definition makedirs :: "filesystem \<Rightarrow> string \<Rightarrow> error option \<times> filesystem" where
  "makedirs fs name =
     (let whole = (if basename name = [] then dirname name else name);
          head = dirname whole;
          tail = basename whole;
          descend = (head \<noteq> [] \<and> tail \<noteq> [] \<and> \<not> path_exists fs head);
          missing = (if descend
                     then head # takeWhile (\<lambda>a. \<not> path_exists fs a) (ancestors head)
                     else [])
      in case mkdir_each fs (rev missing) of
           (Some e, fs1) \<Rightarrow> (Some e, fs1)
         | (None, fs1) \<Rightarrow>
             if descend \<and> tail = ''.'' then (None, fs1)
             else (case mkdir fs1 name of
                     (None, fs2) \<Rightarrow> (None, fs2)
                   | (Some e, fs2) \<Rightarrow> if isdir fs1 name then (None, fs1) else (Some e, fs1)))"

section \<open>Writers\<close>

text \<open>
  \<^verbatim>\<open>Image.save(path)\<close> takes the format from the lower-cased extension: Pillow's own plugins
  register the extensions of the table for PNG, JPEG, BMP, GIF, TIFF and WebP, other plugins
  the rest. It opens the file for writing, and the writer of the format takes the image or
  refuses its mode; a refused write leaves no new file and leaves an existing one truncated.
\<close>

fun mode_name :: "mode \<Rightarrow> string" where
  "mode_name Mode_1 = ''1''"
| "mode_name Mode_L = ''L''"
| "mode_name Mode_LA = ''LA''"
| "mode_name Mode_P = ''P''"
| "mode_name Mode_PA = ''PA''"
| "mode_name Mode_RGB = ''RGB''"
| "mode_name Mode_RGBA = ''RGBA''"
| "mode_name Mode_CMYK = ''CMYK''"

definition format_of_ext :: "filesystem \<Rightarrow> string \<Rightarrow> string option" where
  "format_of_ext fs ext =
     (case map_of [(''.png'', ''PNG''), (''.apng'', ''PNG''),
                   (''.jpg'', ''JPEG''), (''.jpeg'', ''JPEG''), (''.jpe'', ''JPEG''),
                   (''.jfif'', ''JPEG''), (''.bmp'', ''BMP''), (''.gif'', ''GIF''),
                   (''.tif'', ''TIFF''), (''.tiff'', ''TIFF''), (''.webp'', ''WEBP'')] ext of
        Some fmt \<Rightarrow> Some fmt
      | None \<Rightarrow> more_formats fs ext)"

definition encoder_accepts :: "filesystem \<Rightarrow> string \<Rightarrow> mode \<Rightarrow> bool" where
  "encoder_accepts fs fmt m =
     (if fmt = ''PNG'' then m \<in> set [Mode_1, Mode_L, Mode_LA, Mode_P, Mode_RGB, Mode_RGBA]
      else if fmt = ''JPEG'' then m \<in> set [Mode_1, Mode_L, Mode_RGB, Mode_CMYK]
      else if fmt = ''BMP'' then m \<in> set [Mode_1, Mode_L, Mode_P, Mode_RGB, Mode_RGBA]
      else if fmt \<in> set [''GIF'', ''TIFF'', ''WEBP''] then True
      else \<not> refuses fs fmt m)"

text \<open>
  What opening the written file returns. PNG stores the image as it is. TIFF stores every
  band and no transparency entry. BMP (but for its 32-bit form) and JPEG store neither an
  alpha band nor a transparency entry: every pixel of the file is opaque; BMP keeps the
  colours, JPEG stores a bilevel image in mode L and its colours are those the codec gives
  back. The other writers are taken as the run finds them.
\<close>

definition flat_raster :: "mode \<Rightarrow> image \<Rightarrow> nat \<Rightarrow> nat \<Rightarrow> image" where
  "flat_raster m src w h =
     \<lparr>mode = m, width = w, height = h, transparency = None,
      data = map (\<lambda>y. map (\<lambda>x. opaque (pixel_at src x y)) [0..<w]) [0..<h]\<rparr>"

definition written :: "filesystem \<Rightarrow> string \<Rightarrow> image \<Rightarrow> image" where
  "written fs fmt img =
     (if fmt = ''PNG'' then img
      else if fmt = ''TIFF''
      then (if ''A'' \<in> set (getbands (mode img)) then img\<lparr>transparency := None\<rparr>
            else flat_raster (mode img) img (width img) (height img))
      else if fmt = ''BMP'' \<and> mode img \<noteq> Mode_RGBA
      then flat_raster (mode img) img (width img) (height img)
      else if fmt = ''JPEG''
      then flat_raster (if mode img = Mode_1 then Mode_L else mode img)
             (reread fs fmt img) (width img) (height img)
      else reread fs fmt img)"

text \<open>Opening a path with \<^verbatim>\<open>open(path, "w+b")\<close>: the exception, if any.\<close>

definition open_for_writing :: "filesystem \<Rightarrow> string \<Rightarrow> error option" where
  "open_for_writing fs path =
     (if path = [] then Some (os_error FileNotFoundError path)
      else if isdir fs path then Some (os_error IsADirectoryError path)
      else if list_ex (isfile fs) (ancestors path) then Some (os_error NotADirectoryError path)
      else if dirname path \<noteq> [] \<and> \<not> isdir fs (dirname path)
      then Some (os_error FileNotFoundError path)
      else if (if isfile fs path then path \<in> set (denied fs) else parent_denied fs path)
      then Some (os_error PermissionError path)
      else None)"

definition image_save :: "filesystem \<Rightarrow> image \<Rightarrow> string \<Rightarrow> error option \<times> filesystem" where
  "image_save fs img path =
     (let ext = str_lower (snd (splitext path)) in
      case format_of_ext fs ext of
        None \<Rightarrow> (Some (ValueError, ''unknown file extension: '' @ ext), fs)
      | Some fmt \<Rightarrow>
          (case open_for_writing fs path of
             Some e \<Rightarrow> (Some e, fs)
           | None \<Rightarrow>
               if \<not> encoder_accepts fs fmt (mode img)
               then (Some (OSError, ''cannot write mode '' @ mode_name (mode img) @ '' as '' @ fmt),
                     if isfile fs path then fs\<lparr>files := AList.update path OtherFile (files fs)\<rparr>
                     else fs)
               else (None,
                     fs\<lparr>files := AList.update path (ImageFile (written fs fmt img)) (files fs)\<rparr>)))"

section \<open>Trimming one file\<close>

text \<open>
  \<^verbatim>\<open>trim_whitespace\<close>: the exception that ends the call, if any, and the file system it leaves
  (the directories made stay when a later step fails).
\<close>

definition trim_whitespace ::
  "filesystem \<Rightarrow> string \<Rightarrow> string \<Rightarrow> int \<Rightarrow> string \<Rightarrow> string \<Rightarrow> error option \<times> filesystem" where
  "trim_whitespace fs image_path output_path keep_margin_percent color_type direction =
     (case image_open fs image_path of
        Inl e \<Rightarrow> (Some e, fs)
      | Inr orig \<Rightarrow>
          (case trim_final orig keep_margin_percent color_type direction of
             Inl e \<Rightarrow> (Some e, fs)
           | Inr cropped \<Rightarrow>
               (case makedirs fs (dirname output_path) of
                  (Some e, fs1) \<Rightarrow> (Some e, fs1)
                | (None, fs1) \<Rightarrow>
                    let ext = str_lower (snd (splitext output_path))
                    in image_save fs1 (for_encoder ext cropped) output_path)))"

section \<open>The batch runner\<close>

definition collect_dir :: "filesystem \<Rightarrow> string \<Rightarrow> string list" where
  "collect_dir fs d =
     concat (map (\<lambda>(root, subdirs, names).
                    map (path_join root)
                      (filter (\<lambda>f. endswith (str_lower f) SUPPORTED_EXTS) names))
                 (walk fs d))"

definition collect_targets :: "filesystem \<Rightarrow> string list \<Rightarrow> string list" where
  "collect_targets fs inputs =
     concat (map (\<lambda>p. if isdir fs p then collect_dir fs p
                       else if isfile fs p \<and> endswith (str_lower p) SUPPORTED_EXTS then [p]
                       else [])
                 inputs)"

text \<open>
  The callbacks belong to the caller: they read and change a state \<open>'e\<close> of the caller's own.
  A run leaves its error list, the file system, the caller's state, and the log of what it
  did, in order: progress reports, cancellation checks with their answer, and files trimmed
  with their outcome.
\<close>

datatype event = Progress int int | CancelCheck bool | Trim string "error option"

record 'e run_state =
  errors :: "string list"
  fs_now :: filesystem
  env :: 'e
  trace :: "event list"

definition report ::
  "(int \<Rightarrow> int \<Rightarrow> 'e \<Rightarrow> 'e) option \<Rightarrow> int \<Rightarrow> int \<Rightarrow> 'e run_state \<Rightarrow> 'e run_state" where
  "report progress_cb i total' s =
     (case progress_cb of
        None \<Rightarrow> s
      | Some cb \<Rightarrow> s\<lparr>env := cb i total' (env s), trace := trace s @ [Progress i total']\<rparr>)"

definition check_cancel ::
  "('e \<Rightarrow> bool \<times> 'e) option \<Rightarrow> 'e run_state \<Rightarrow> bool \<times> 'e run_state" where
  "check_cancel is_cancelled s =
     (case is_cancelled of
        None \<Rightarrow> (False, s)
      | Some c \<Rightarrow>
          (case c (env s) of
             (b, e') \<Rightarrow> (b, s\<lparr>env := e', trace := trace s @ [CancelCheck b]\<rparr>)))"

text \<open>The output path of a target: \<^verbatim>\<open>join(dirname(src), "Remake", basename(src))\<close>.\<close>

definition remake_path :: "string \<Rightarrow> string" where
  "remake_path src = path_join (path_join (dirname src) ''Remake'') (basename src)"

text \<open>The body of the \<^verbatim>\<open>try\<close> statement for one target, with its \<^verbatim>\<open>except\<close> clause.\<close>

definition process_one ::
  "string \<Rightarrow> string \<Rightarrow> int \<Rightarrow> string \<Rightarrow> 'e run_state \<Rightarrow> 'e run_state" where
  "process_one color_type direction keep_margin_percent src s =
     (let out = remake_path src in
      case trim_whitespace (fs_now s) src out keep_margin_percent color_type direction of
        (res, fs') \<Rightarrow>
          s\<lparr>fs_now := fs',
            errors := (case res of
                         None \<Rightarrow> errors s
                       | Some e \<Rightarrow> errors s @ [src @ '': '' @ str_of e]),
            trace := trace s @ [Trim src res]\<rparr>)"

fun run_loop ::
  "string \<Rightarrow> string \<Rightarrow> int \<Rightarrow> (int \<Rightarrow> int \<Rightarrow> 'e \<Rightarrow> 'e) option \<Rightarrow> ('e \<Rightarrow> bool \<times> 'e) option
   \<Rightarrow> int \<Rightarrow> (int \<times> string) list \<Rightarrow> 'e run_state \<Rightarrow> 'e run_state" where
  "run_loop color_type direction keep_margin_percent progress_cb is_cancelled total' [] s = s"
| "run_loop color_type direction keep_margin_percent progress_cb is_cancelled total'
     ((i, src) # rest) s =
     (case check_cancel is_cancelled s of
        (stop, s1) \<Rightarrow>
          if stop then s1
          else
            let s2 = process_one color_type direction keep_margin_percent src s1;
                s3 = report progress_cb i total' s2
            in run_loop color_type direction keep_margin_percent progress_cb is_cancelled total'
                 rest s3)"

definition enumerate1 :: "'a list \<Rightarrow> (int \<times> 'a) list" where
  "enumerate1 xs = zip (map int [1..<Suc (length xs)]) xs"

definition process_targets ::
  "filesystem \<Rightarrow> 'e \<Rightarrow> string list \<Rightarrow> string \<Rightarrow> string \<Rightarrow> int
   \<Rightarrow> (int \<Rightarrow> int \<Rightarrow> 'e \<Rightarrow> 'e) option \<Rightarrow> ('e \<Rightarrow> bool \<times> 'e) option \<Rightarrow> 'e run_state" where
  "process_targets fs e inputs color_type direction keep_margin_percent progress_cb is_cancelled =
     (let targets = collect_targets fs inputs;
          total' = int (length targets);
          s0 = report progress_cb 0 total' \<lparr>errors = [], fs_now = fs, env = e, trace = []\<rparr>
      in run_loop color_type direction keep_margin_percent progress_cb is_cancelled total'
           (enumerate1 targets) s0)"

section \<open>Notions the properties are stated with\<close>

text \<open>A pixel of the detection view is content when it is not background.\<close>

definition content_at :: "image \<Rightarrow> string \<Rightarrow> int \<Rightarrow> nat \<Rightarrow> nat \<Rightarrow> bool" where
  "content_at img color_type thr x y = (\<not> is_bg color_type thr (rgb_at img x y))"

definition column_content :: "image \<Rightarrow> string \<Rightarrow> int \<Rightarrow> nat \<Rightarrow> bool" where
  "column_content img color_type thr x =
     list_ex (\<lambda>y. content_at img color_type thr x y) [0..<height img]"

definition row_content :: "image \<Rightarrow> string \<Rightarrow> int \<Rightarrow> nat \<Rightarrow> bool" where
  "row_content img color_type thr y =
     list_ex (\<lambda>x. content_at img color_type thr x y) [0..<width img]"

text \<open>The first and the last index of \<open>[0..<n]\<close> that satisfy \<open>P\<close>, as the scan reports them.\<close>

definition axis_bounds :: "(nat \<Rightarrow> bool) \<Rightarrow> nat \<Rightarrow> int \<times> int" where
  "axis_bounds P n =
     (case find P [0..<n] of None \<Rightarrow> 0 | Some i \<Rightarrow> int i,
      case find P (rev [0..<n]) of None \<Rightarrow> int n | Some i \<Rightarrow> int i + 1)"

text \<open>The pixel at \<open>(x0, y0)\<close> is content and no other pixel of the raster is.\<close>

definition sole_content :: "image \<Rightarrow> string \<Rightarrow> int \<Rightarrow> nat \<Rightarrow> nat \<Rightarrow> bool" where
  "sole_content img color_type thr x0 y0 =
     (x0 < width img \<and> y0 < height img
      \<and> list_all (\<lambda>y. list_all (\<lambda>x. content_at img color_type thr x y = (x = x0 \<and> y = y0))
                              [0..<width img])
                 [0..<height img])"

text \<open>Content in the first and last column and in the first and last row.\<close>

definition touches_all_edges :: "image \<Rightarrow> string \<Rightarrow> int \<Rightarrow> bool" where
  "touches_all_edges img color_type thr =
     (0 < width img \<and> 0 < height img
      \<and> column_content img color_type thr 0
      \<and> column_content img color_type thr (width img - 1)
      \<and> row_content img color_type thr 0
      \<and> row_content img color_type thr (height img - 1))"

text \<open>Rasters for concrete runs: an RGB image given by a function of the coordinates.\<close>

definition rgb_image :: "nat \<Rightarrow> nat \<Rightarrow> (nat \<Rightarrow> nat \<Rightarrow> int \<times> int \<times> int) \<Rightarrow> image" where
  "rgb_image w h f =
     \<lparr>mode = Mode_RGB, width = w, height = h, transparency = None,
      data = map (\<lambda>y. map (\<lambda>x. case f x y of (r, g, b) \<Rightarrow> (r, g, b, 255)) [0..<w]) [0..<h]\<rparr>"

definition white_2x2 :: image where
  "white_2x2 = rgb_image 2 2 (\<lambda>x y. (255, 255, 255))"

definition dot_3x3 :: image where
  "dot_3x3 = rgb_image 3 3 (\<lambda>x y. if x = 1 \<and> y = 2 then (10, 20, 30) else (250, 250, 250))"

definition black_2x2 :: image where
  "black_2x2 = rgb_image 2 2 (\<lambda>x y. (0, 0, 0))"

text \<open>The margin in pixels that \<^verbatim>\<open>trim_whitespace\<close> adds on each side of one axis.\<close>

definition margin_px :: "nat \<Rightarrow> int \<Rightarrow> int" where
  "margin_px n keep_margin_percent =
     (if keep_margin_percent > 0 then py_int (real_of_int (int n * keep_margin_percent) / 100)
      else 0)"

text \<open>An RGBA raster with one transparent pixel, stored under two extensions.\<close>

definition veil_2x2 :: image where
  "veil_2x2 =
     \<lparr>mode = Mode_RGBA, width = 2, height = 2, transparency = None,
      data = [[(0, 0, 0, 0), (0, 0, 0, 255)], [(0, 0, 0, 255), (0, 0, 0, 255)]]\<rparr>"

text \<open>
  A file system with one directory of files, nothing denied, no writers beyond Pillow's own and
  codecs that give back the colours they were given.
\<close>

definition one_dir_fs :: "string \<Rightarrow> (string \<times> file_content) list \<Rightarrow> filesystem" where
  "one_dir_fs d entries =
     \<lparr>dirs = [d],
      files = map (\<lambda>(name, c). (path_join d name, c)) entries,
      walk = (\<lambda>start. if start = d then [(d, [], map fst entries)] else []),
      denied = [],
      more_formats = (\<lambda>ext. None),
      refuses = (\<lambda>fmt m. False),
      reread = (\<lambda>fmt img. img)\<rparr>"

text \<open>An RGB raster with a key colour: its first pixel shows as transparent.\<close>

definition keyed_2x2 :: image where
  "keyed_2x2 =
     \<lparr>mode = Mode_RGB, width = 2, height = 2, transparency = Some TrnsKey,
      data = [[(255, 0, 255, 0), (0, 0, 0, 255)], [(0, 0, 0, 255), (0, 0, 0, 255)]]\<rparr>"

definition veil_fs :: filesystem where
  "veil_fs = one_dir_fs ''in''
     [(''veil.png'', ImageFile veil_2x2), (''veil.BMP'', ImageFile veil_2x2),
      (''key.jpg'', ImageFile keyed_2x2)]"

text \<open>
  Readings of the log: the files trimmed with their outcomes, the error lines those outcomes
  make, the log without its progress reports, and the log that one cancellation check before
  each listed file leaves.
\<close>

definition trimmed :: "event list \<Rightarrow> (string \<times> error option) list" where
  "trimmed evs =
     concat (map (\<lambda>ev. case ev of Trim src res \<Rightarrow> [(src, res)] | _ \<Rightarrow> []) evs)"

definition failures :: "(string \<times> error option) list \<Rightarrow> string list" where
  "failures ps =
     concat (map (\<lambda>(src, res). case res of None \<Rightarrow> [] | Some e \<Rightarrow> [src @ '': '' @ str_of e]) ps)"

definition without_progress :: "event list \<Rightarrow> event list" where
  "without_progress evs =
     filter (\<lambda>ev. case ev of Progress i n \<Rightarrow> False | _ \<Rightarrow> True) evs"

definition checked_files :: "(string \<times> error option) list \<Rightarrow> event list" where
  "checked_files ps = concat (map (\<lambda>(src, res). [CancelCheck False, Trim src res]) ps)"

text \<open>
  Two callers. The first raises its flag in the progress report that announces two files done;
  the second counts the progress reports it receives and cancels once it has seen two.
\<close>

definition flag_at_two_done :: "int \<Rightarrow> int \<Rightarrow> bool \<Rightarrow> bool" where
  "flag_at_two_done done n flag = (flag \<or> done = 2)"

definition read_flag :: "bool \<Rightarrow> bool \<times> bool" where
  "read_flag flag = (flag, flag)"

definition count_report :: "int \<Rightarrow> int \<Rightarrow> nat \<Rightarrow> nat" where
  "count_report done n seen = seen + 1"

definition seen_two_reports :: "nat \<Rightarrow> bool \<times> nat" where
  "seen_two_reports seen = (2 \<le> seen, seen)"

text \<open>A directory of five targets, four of which are no images, and a file that is no target.\<close>

definition five_fs :: filesystem where
  "five_fs = one_dir_fs ''d''
     [(''1.png'', OtherFile), (''2.png'', OtherFile), (''3.jpg'', OtherFile),
      (''4.gif'', OtherFile), (''5.PNG'', ImageFile dot_3x3), (''notes.txt'', OtherFile)]"

text \<open>
  The batch of two pictures: \<^verbatim>\<open>a.png\<close>, 10 by 10 and all white, and \<^verbatim>\<open>b.png\<close>, 10 by 10 and
  white with a black square of 2 by 2 at \<open>(4, 4)\<close>.
\<close>

definition a_png :: image where
  "a_png = rgb_image 10 10 (\<lambda>x y. (255, 255, 255))"

definition b_png :: image where
  "b_png = rgb_image 10 10
     (\<lambda>x y. if 4 \<le> x \<and> x < 6 \<and> 4 \<le> y \<and> y < 6 then (0, 0, 0) else (255, 255, 255))"

definition batch_fs :: filesystem where
  "batch_fs = one_dir_fs ''pics'' [(''a.png'', ImageFile a_png), (''b.png'', ImageFile b_png)]"

definition stored_size :: "filesystem \<Rightarrow> string \<Rightarrow> (nat \<times> nat) option" where
  "stored_size fs path =
     (case map_of (files fs) path of
        Some (ImageFile img) \<Rightarrow> Some (width img, height img)
      | _ \<Rightarrow> None)"

section \<open>The detector: what the scans compute\<close>

lemma px_unpack_rgb:
  "mode img = Mode_RGB \<Longrightarrow> x < width img \<Longrightarrow> y < height img \<Longrightarrow>
   px_unpack img x y = Inr (rgb_at img x y)"
  by (simp add: px_unpack_def)

lemma any_not_bg_rgb:
  assumes "mode img = Mode_RGB"
    and "\<forall>(x, y) \<in> set ps. x < width img \<and> y < height img"
  shows "any_not_bg img ct thr ps = Inr (\<exists>(x, y) \<in> set ps. content_at img ct thr x y)"
  using assms(2)
proof (induction ps)
  case Nil
  then show ?case by simp
next
  case (Cons p ps)
  obtain x y where p: "p = (x, y)" by (cases p)
  with Cons.prems have "x < width img" "y < height img" by auto
  then have "px_unpack img x y = Inr (rgb_at img x y)"
    using assms(1) by (simp add: px_unpack_rgb)
  with Cons p show ?case by (auto simp: content_at_def)
qed

lemma first_hit_find:
  "\<forall>i \<in> set xs. test i = Inr (P i) \<Longrightarrow> first_hit test xs = Inr (find P xs)"
  by (induction xs) auto

lemma find_upt_Some:
  "find P [0..<n] = Some i \<longleftrightarrow> i < n \<and> P i \<and> (\<forall>j<i. \<not> P j)"
  by (auto simp: find_Some_iff)

lemma find_rev_upt_Some:
  "find P (rev [0..<n]) = Some i \<longleftrightarrow> i < n \<and> P i \<and> (\<forall>j. i < j \<and> j < n \<longrightarrow> \<not> P j)"
proof
  assume "find P (rev [0..<n]) = Some i"
  then obtain k where k: "k < n" "P (rev [0..<n] ! k)" "i = rev [0..<n] ! k"
    "\<forall>j<k. \<not> P (rev [0..<n] ! j)"
    by (auto simp: find_Some_iff)
  have i: "i = n - 1 - k" using k(1,3) by (simp add: rev_nth)
  have "\<not> P j" if "i < j" "j < n" for j
  proof -
    have "n - 1 - j < k" using that i k(1) by arith
    moreover have "rev [0..<n] ! (n - 1 - j) = j" using that by (simp add: rev_nth)
    ultimately show ?thesis using k(4) by metis
  qed
  then show "i < n \<and> P i \<and> (\<forall>j. i < j \<and> j < n \<longrightarrow> \<not> P j)"
    using k i by auto
next
  assume a: "i < n \<and> P i \<and> (\<forall>j. i < j \<and> j < n \<longrightarrow> \<not> P j)"
  have "n - 1 - i < length (rev [0..<n])" using a by simp
  moreover have "rev [0..<n] ! (n - 1 - i) = i" using a by (simp add: rev_nth)
  moreover have "\<not> P (rev [0..<n] ! j)" if "j < n - 1 - i" for j
  proof -
    have "rev [0..<n] ! j = n - 1 - j" using that by (simp add: rev_nth)
    moreover have "i < n - 1 - j" "n - 1 - j < n" using that a by arith+
    ultimately show ?thesis using a by simp
  qed
  ultimately show "find P (rev [0..<n]) = Some i"
    using a unfolding find_Some_iff by (intro exI[of _ "n - 1 - i"]) auto
qed

lemma column_test:
  assumes "mode img = Mode_RGB" "x < width img"
  shows "any_not_bg img ct thr (map (\<lambda>y. (x, y)) [0..<height img])
         = Inr (column_content img ct thr x)"
  using assms by (subst any_not_bg_rgb) (auto simp: column_content_def list_ex_iff)

lemma row_test:
  assumes "mode img = Mode_RGB" "y < height img"
  shows "any_not_bg img ct thr (map (\<lambda>x. (x, y)) [0..<width img])
         = Inr (row_content img ct thr y)"
  using assms by (subst any_not_bg_rgb) (auto simp: row_content_def list_ex_iff)

lemma scan_axis_find:
  assumes "\<forall>i<n. test i = Inr (P i)"
  shows "scan_axis test n = Inr (axis_bounds P n)"
proof -
  have "first_hit test [0..<n] = Inr (find P [0..<n])"
    using assms by (intro first_hit_find) simp
  moreover have "first_hit test (rev [0..<n]) = Inr (find P (rev [0..<n]))"
    using assms by (intro first_hit_find) simp
  ultimately show ?thesis by (simp add: scan_axis_def axis_bounds_def)
qed

lemma detect_closed_form:
  assumes "mode img = Mode_RGB"
  shows "detect_whitespace_thr img ct dir thr =
         Inr (clamp_box (int (width img)) (int (height img))
                (if dir \<in> set [''horizontal'', ''both'']
                 then axis_bounds (column_content img ct thr) (width img)
                 else (0, int (width img)))
                (if dir \<in> set [''vertical'', ''both'']
                 then axis_bounds (row_content img ct thr) (height img)
                 else (0, int (height img))))"
proof -
  have c: "scan_axis (\<lambda>x. any_not_bg img ct thr (map (\<lambda>y. (x, y)) [0..<height img])) (width img)
           = Inr (axis_bounds (column_content img ct thr) (width img))"
    by (rule scan_axis_find) (simp add: column_test[OF assms])
  have r: "scan_axis (\<lambda>y. any_not_bg img ct thr (map (\<lambda>x. (x, y)) [0..<width img])) (height img)
           = Inr (axis_bounds (row_content img ct thr) (height img))"
    by (rule scan_axis_find) (simp add: row_test[OF assms])
  show ?thesis
    unfolding detect_whitespace_thr_def Let_def
    by (simp only: c r if_distrib[of "\<lambda>v. case_sum _ _ v"] sum.case if_cancel cong: if_cong) simp
qed

lemma clamp_box_inside:
  assumes "1 \<le> w" "1 \<le> h" "clamp_box w h lr tb = (l, r, t, b)"
  shows "0 \<le> l \<and> l < r \<and> r \<le> w \<and> 0 \<le> t \<and> t < b \<and> b \<le> h"
proof -
  obtain l0 r0 t0 b0 where "lr = (l0, r0)" "tb = (t0, b0)" by (cases lr; cases tb) auto
  with assms(3) have "l = max 0 (min l0 (w - 1))" "r = max (l + 1) (min r0 w)"
    "t = max 0 (min t0 (h - 1))" "b = max (t + 1) (min b0 h)"
    by (auto simp: clamp_box_def Let_def)
  with assms(1,2) show ?thesis by (simp add: max_def min_def)
qed

lemma clamp_box_nonempty:
  assumes "clamp_box w h lr tb = (l, r, t, b)"
  shows "0 \<le> l \<and> l < r \<and> 0 \<le> t \<and> t < b"
proof -
  obtain l0 r0 t0 b0 where "lr = (l0, r0)" "tb = (t0, b0)" by (cases lr; cases tb) auto
  with assms have "l = max 0 (min l0 (w - 1))" "r = max (l + 1) (min r0 w)"
    "t = max 0 (min t0 (h - 1))" "b = max (t + 1) (min b0 h)"
    by (auto simp: clamp_box_def Let_def)
  then show ?thesis by (simp add: max_def min_def)
qed

lemma axis_bounds_single:
  assumes "i0 < n" "\<forall>i<n. P i \<longleftrightarrow> i = i0"
  shows "axis_bounds P n = (int i0, int i0 + 1)"
proof -
  have "find P [0..<n] = Some i0" using assms by (simp add: find_upt_Some)
  moreover have "find P (rev [0..<n]) = Some i0" using assms by (simp add: find_rev_upt_Some)
  ultimately show ?thesis by (simp add: axis_bounds_def)
qed

lemma axis_bounds_edges:
  assumes "0 < n" "P 0" "P (n - 1)"
  shows "axis_bounds P n = (0, int n)"
proof -
  have "find P [0..<n] = Some 0" using assms by (simp add: find_upt_Some)
  moreover have "find P (rev [0..<n]) = Some (n - 1)"
    using assms by (simp add: find_rev_upt_Some) arith
  ultimately show ?thesis using assms by (simp add: axis_bounds_def)
qed

lemma clamp_box_single:
  assumes "x0 < w" "y0 < h"
  shows "clamp_box (int w) (int h) (int x0, int x0 + 1) (int y0, int y0 + 1)
         = (int x0, int x0 + 1, int y0, int y0 + 1)"
  using assms by (simp add: clamp_box_def Let_def)

lemma clamp_box_full:
  assumes "0 < w" "0 < h"
  shows "clamp_box (int w) (int h) (0, int w) (0, int h) = (0, int w, 0, int h)"
  using assms by (simp add: clamp_box_def Let_def)

lemma sole_content_columns:
  assumes "sole_content img ct thr x0 y0"
  shows "\<forall>x<width img. column_content img ct thr x \<longleftrightarrow> x = x0"
  using assms unfolding sole_content_def column_content_def list_all_iff list_ex_iff
  by auto

lemma sole_content_rows:
  assumes "sole_content img ct thr x0 y0"
  shows "\<forall>y<height img. row_content img ct thr y \<longleftrightarrow> y = y0"
  using assms unfolding sole_content_def row_content_def list_all_iff list_ex_iff
  by auto

text \<open>
  Claim C1. A pixel is background under WHITE exactly when each of its three channels is at
  least \<open>255 - thr\<close>, and under BLACK exactly when each channel is at most \<open>thr\<close>; a call of
  \<^verbatim>\<open>detect_whitespace\<close> that leaves the threshold out runs with 70.
\<close>

theorem is_bg_classification:
  "(is_bg ''white'' thr (r, g, b) \<longleftrightarrow> r \<ge> 255 - thr \<and> g \<ge> 255 - thr \<and> b \<ge> 255 - thr)
   \<and> (is_bg ''black'' thr (r, g, b) \<longleftrightarrow> r \<le> thr \<and> g \<le> thr \<and> b \<le> thr)
   \<and> detect_whitespace img color_type direction None
       = detect_whitespace img color_type direction (Some 70)"
  by (simp add: detect_whitespace_def)

theorem is_bg_classification_witness:
  "is_bg ''white'' 70 (185, 200, 255) \<and> \<not> is_bg ''white'' 70 (184, 200, 255)
   \<and> is_bg ''black'' 70 (70, 0, 12) \<and> \<not> is_bg ''black'' 70 (70, 71, 12)
   \<and> detect_whitespace dot_3x3 ''white'' ''both'' None
       = detect_whitespace dot_3x3 ''white'' ''both'' (Some 70)"
  using is_bg_classification [of 70 185 200 255 dot_3x3 "''white''" "''both''"]
    is_bg_classification [of 70 184 200 255 dot_3x3 "''white''" "''both''"]
    is_bg_classification [of 70 70 0 12 dot_3x3 "''white''" "''both''"]
    is_bg_classification [of 70 70 71 12 dot_3x3 "''white''" "''both''"]
  by simp

text \<open>
  Claim C2. On an RGB raster at least one pixel wide and high, for every colour mode, axis
  mode and threshold, \<^verbatim>\<open>detect_whitespace\<close> raises nothing and returns a box with
  \<open>0 \<le> left < right \<le> width\<close> and \<open>0 \<le> top < bottom \<le> height\<close>; an image that is all
  background is no exception.
\<close>

theorem detect_whitespace_box:
  assumes "mode img = Mode_RGB" "1 \<le> width img" "1 \<le> height img"
  shows "\<exists>l r t b. detect_whitespace img color_type direction thr = Inr (l, r, t, b)
           \<and> 0 \<le> l \<and> l < r \<and> r \<le> int (width img)
           \<and> 0 \<le> t \<and> t < b \<and> b \<le> int (height img)"
proof -
  obtain lr tb where d: "detect_whitespace img color_type direction thr
      = Inr (clamp_box (int (width img)) (int (height img)) lr tb)"
    unfolding detect_whitespace_def detect_closed_form[OF assms(1)] by blast
  obtain l r t b where c: "clamp_box (int (width img)) (int (height img)) lr tb = (l, r, t, b)"
    by (metis prod_cases4)
  have "0 \<le> l \<and> l < r \<and> r \<le> int (width img) \<and> 0 \<le> t \<and> t < b \<and> b \<le> int (height img)"
    using assms(2,3) by (intro clamp_box_inside[OF _ _ c]) simp_all
  with d c show ?thesis by simp
qed

theorem detect_whitespace_box_witness:
  "mode white_2x2 = Mode_RGB \<and> 1 \<le> width white_2x2 \<and> 1 \<le> height white_2x2
   \<and> list_all (\<lambda>y. list_all (\<lambda>x. is_bg ''white'' 70 (rgb_at white_2x2 x y)) [0..<2]) [0..<2]
   \<and> (\<exists>l r t b. detect_whitespace white_2x2 ''white'' ''both'' (Some 70) = Inr (l, r, t, b)
           \<and> 0 \<le> l \<and> l < r \<and> r \<le> int (width white_2x2)
           \<and> 0 \<le> t \<and> t < b \<and> b \<le> int (height white_2x2))"
proof -
  have h: "mode white_2x2 = Mode_RGB" "1 \<le> width white_2x2" "1 \<le> height white_2x2"
    by (simp_all add: white_2x2_def rgb_image_def)
  have bg: "list_all (\<lambda>y. list_all (\<lambda>x. is_bg ''white'' 70 (rgb_at white_2x2 x y)) [0..<2]) [0..<2]"
    by code_simp
  show ?thesis
    using h bg detect_whitespace_box [OF h, of "''white''" "''both''" "Some 70"] by blast
qed

text \<open>
  Claim C3. On an RGB raster whose only non-background pixel is at \<open>(x0, y0)\<close>, the detector
  under axis mode BOTH returns exactly \<open>left = x0\<close>, \<open>right = x0 + 1\<close>, \<open>top = y0\<close>,
  \<open>bottom = y0 + 1\<close>.
\<close>

theorem single_pixel_box:
  assumes "mode img = Mode_RGB" "sole_content img color_type thr x0 y0"
  shows "detect_whitespace img color_type ''both'' (Some thr)
         = Inr (int x0, int x0 + 1, int y0, int y0 + 1)"
proof -
  have x0: "x0 < width img" and y0: "y0 < height img"
    using assms(2) by (simp_all add: sole_content_def)
  have "axis_bounds (column_content img color_type thr) (width img) = (int x0, int x0 + 1)"
    by (rule axis_bounds_single[OF x0 sole_content_columns[OF assms(2)]])
  moreover have "axis_bounds (row_content img color_type thr) (height img) = (int y0, int y0 + 1)"
    by (rule axis_bounds_single[OF y0 sole_content_rows[OF assms(2)]])
  ultimately show ?thesis
    unfolding detect_whitespace_def detect_closed_form[OF assms(1)]
    by (simp add: clamp_box_single[OF x0 y0])
qed

theorem single_pixel_box_witness:
  "mode dot_3x3 = Mode_RGB \<and> sole_content dot_3x3 ''white'' 70 1 2
   \<and> detect_whitespace dot_3x3 ''white'' ''both'' (Some 70) = Inr (1, 2, 2, 3)"
proof -
  have m: "mode dot_3x3 = Mode_RGB" by (simp add: dot_3x3_def rgb_image_def)
  have s: "sole_content dot_3x3 ''white'' 70 1 2" by code_simp
  show ?thesis using m s single_pixel_box [OF m s] by simp
qed


section \<open>The compositor: sizes and the box it crops to\<close>

lemma convert_RGB_fields [simp]:
  "mode (convert_RGB img) = Mode_RGB"
  "width (convert_RGB img) = width img"
  "height (convert_RGB img) = height img"
  by (simp_all add: convert_RGB_def)

lemma paste_fields [simp]:
  "mode (paste dst im off matte) = mode dst"
  "width (paste dst im off matte) = width dst"
  "height (paste dst im off matte) = height dst"
  "transparency (paste dst im off matte) = transparency dst"
  by (simp_all add: paste_def Let_def split: prod.splits)

lemma image_new_fields [simp]:
  "mode (image_new m w h fill) = m"
  "width (image_new m w h fill) = w"
  "height (image_new m w h fill) = h"
  "transparency (image_new m w h fill) = None"
  by (simp_all add: image_new_def)

lemma rgb_for_detection_fields [simp]:
  "mode (rgb_for_detection img ct) = Mode_RGB"
  "width (rgb_for_detection img ct) = width img"
  "height (rgb_for_detection img ct) = height img"
  by (simp_all add: rgb_for_detection_def Let_def)

lemma detection_succeeds:
  "\<exists>l r t b. detect_whitespace (rgb_for_detection orig ct) ct dir thr = Inr (l, r, t, b)
     \<and> 0 \<le> l \<and> l < r \<and> 0 \<le> t \<and> t < b"
proof -
  let ?det = "rgb_for_detection orig ct"
  have m: "mode ?det = Mode_RGB" by simp
  obtain lr tb where d: "detect_whitespace ?det ct dir thr
      = Inr (clamp_box (int (width ?det)) (int (height ?det)) lr tb)"
    unfolding detect_whitespace_def detect_closed_form[OF m] by blast
  obtain l r t b where c: "clamp_box (int (width ?det)) (int (height ?det)) lr tb = (l, r, t, b)"
    by (metis prod_cases4)
  from clamp_box_nonempty[OF c] d c show ?thesis by simp
qed

lemma detection_box_nonempty:
  assumes "detect_whitespace (rgb_for_detection orig ct) ct dir thr = Inr (l, r, t, b)"
  shows "0 \<le> l \<and> l < r \<and> 0 \<le> t \<and> t < b"
  using detection_succeeds[of orig ct dir thr] assms by auto

lemma detection_box_inside:
  assumes "detect_whitespace (rgb_for_detection orig ct) ct dir thr = Inr (l, r, t, b)"
    and "0 < width orig" "0 < height orig"
  shows "r \<le> int (width orig) \<and> b \<le> int (height orig)"
proof -
  have "mode (rgb_for_detection orig ct) = Mode_RGB" "1 \<le> width (rgb_for_detection orig ct)"
    "1 \<le> height (rgb_for_detection orig ct)"
    using assms(2,3) by simp_all
  from detect_whitespace_box[OF this, of ct dir thr] assms(1) show ?thesis by auto
qed

lemma crop_ok:
  assumes "l \<le> r" "t \<le> b"
  shows "crop img (l, t, r, b) =
         Inr (img\<lparr>width := nat (r - l), height := nat (b - t),
                  data := map (\<lambda>y. map (\<lambda>x. source_pixel img (l + int x) (t + int y))
                                       [0..<nat (r - l)])
                              [0..<nat (b - t)]\<rparr>)"
  using assms by (simp add: crop_def)

lemma py_int_percent:
  assumes "0 \<le> n"
  shows "py_int (real_of_int n / 100) = n div 100"
proof -
  have "\<lfloor>real_of_int n / real_of_int 100\<rfloor> = n div 100" by (rule floor_divide_of_int_eq)
  then show ?thesis using assms by (simp add: py_int_def)
qed

lemma add_margin_size:
  assumes "0 \<le> p" "l \<le> r" "t \<le> b"
  shows "\<exists>canvas. add_margin cropped w h p (l, r, t, b) = Inr canvas
           \<and> int (width canvas) = (r - l) + 2 * ((int w * p) div 100)
           \<and> int (height canvas) = (b - t) + 2 * ((int h * p) div 100)"
proof -
  have mw: "py_int (real_of_int (int w * p) / 100) = (int w * p) div 100"
    using assms(1) by (intro py_int_percent) simp
  have mh: "py_int (real_of_int (int h * p) / 100) = (int h * p) div 100"
    using assms(1) by (intro py_int_percent) simp
  have "0 \<le> (int w * p) div 100" "0 \<le> (int h * p) div 100"
    using assms(1) by (simp_all add: pos_imp_zdiv_nonneg_iff)
  then have "0 \<le> (r - l) + 2 * ((int w * p) div 100)" "0 \<le> (b - t) + 2 * ((int h * p) div 100)"
    using assms(2,3) by simp_all
  then show ?thesis
    unfolding add_margin_def mw mh
    by (simp add: Let_def image_new_checked_def)
qed

lemma for_encoder_size [simp]:
  "width (for_encoder ext img) = width img"
  "height (for_encoder ext img) = height img"
  by (simp_all add: for_encoder_def)

text \<open>
  Claim C5. For a margin percentage between 0 and 50 and the box \<open>(l, r, t, b)\<close> detected on
  a \<open>W \<times> H\<close> image, the final image is \<open>(r - l) + 2 * floor (W * p / 100)\<close> wide and
  \<open>(b - t) + 2 * floor (H * p / 100)\<close> high: the margin is taken from the size of the original,
  not of the crop. The image handed to the encoder has the same size.
\<close>

theorem margin_canvas_size:
  assumes "0 \<le> p" "p \<le> 50"
    and "detect_whitespace (rgb_for_detection orig color_type) color_type direction (Some 70)
         = Inr (l, r, t, b)"
  shows "\<exists>final. trim_final orig p color_type direction = Inr final
           \<and> int (width final) = (r - l) + 2 * ((int (width orig) * p) div 100)
           \<and> int (height final) = (b - t) + 2 * ((int (height orig) * p) div 100)
           \<and> width (for_encoder ext final) = width final
           \<and> height (for_encoder ext final) = height final"
proof -
  have box: "l \<le> r" "t \<le> b" using detection_box_nonempty[OF assms(3)] by simp_all
  show ?thesis
  proof (cases "p > 0")
    case True
    obtain canvas where c: "add_margin
        (orig\<lparr>width := nat (r - l), height := nat (b - t),
              data := map (\<lambda>y. map (\<lambda>x. source_pixel orig (l + int x) (t + int y))
                                   [0..<nat (r - l)])
                          [0..<nat (b - t)]\<rparr>)
        (width orig) (height orig) p (l, r, t, b) = Inr canvas"
      "int (width canvas) = (r - l) + 2 * ((int (width orig) * p) div 100)"
      "int (height canvas) = (b - t) + 2 * ((int (height orig) * p) div 100)"
      using add_margin_size[OF assms(1) box] by blast
    show ?thesis
      using True c by (simp add: trim_final_def assms(3) finish_trim_def crop_ok[OF box])
  next
    case False
    with assms(1) have "p = 0" by simp
    then show ?thesis
      using box by (simp add: trim_final_def assms(3) finish_trim_def crop_ok[OF box])
  qed
qed

theorem margin_canvas_size_witness:
  "(0::int) \<le> 50 \<and> (50::int) \<le> 50
   \<and> detect_whitespace (rgb_for_detection dot_3x3 ''white'') ''white'' ''both'' (Some 70)
       = Inr (1, 2, 2, 3)
   \<and> (\<exists>final. trim_final dot_3x3 50 ''white'' ''both'' = Inr final
           \<and> int (width final) = 3 \<and> int (height final) = 3
           \<and> width (for_encoder ''.jpg'' final) = width final
           \<and> height (for_encoder ''.jpg'' final) = height final)"
proof -
  have d: "detect_whitespace (rgb_for_detection dot_3x3 ''white'') ''white'' ''both'' (Some 70)
       = Inr (1, 2, 2, 3)"
    by code_simp
  have w: "width dot_3x3 = 3" "height dot_3x3 = 3" by (simp_all add: dot_3x3_def rgb_image_def)
  show ?thesis
    using d margin_canvas_size [of 50, OF _ _ d, of "''.jpg''"] by (simp add: w)
qed

lemma crop_full:
  assumes "wf_image img"
  shows "crop img (0, 0, int (width img), int (height img)) = Inr img"
proof -
  have len: "length (data img) = height img"
    and rows: "\<And>y. y < height img \<Longrightarrow> length (data img ! y) = width img"
    using assms by (auto simp: wf_image_def list_all_length)
  have "map (\<lambda>y. map (\<lambda>x. source_pixel img (0 + int x) (0 + int y)) [0..<width img])
            [0..<height img] = data img"
  proof (rule nth_equalityI)
    show "length (map (\<lambda>y. map (\<lambda>x. source_pixel img (0 + int x) (0 + int y)) [0..<width img])
            [0..<height img]) = length (data img)"
      by (simp add: len)
  next
    fix y
    assume "y < length (map (\<lambda>y. map (\<lambda>x. source_pixel img (0 + int x) (0 + int y))
                [0..<width img]) [0..<height img])"
    then have y: "y < height img" by simp
    have "map (\<lambda>x. source_pixel img (int x) (int y)) [0..<width img] = data img ! y"
      by (rule nth_equalityI) (simp_all add: rows[OF y] source_pixel_def pixel_at_def y)
    then show "map (\<lambda>y. map (\<lambda>x. source_pixel img (0 + int x) (0 + int y)) [0..<width img])
            [0..<height img] ! y = data img ! y"
      using y by simp
  qed
  then show ?thesis by (simp add: crop_def)
qed

lemma touching_box:
  assumes "mode det = Mode_RGB" "touches_all_edges det ct thr"
  shows "detect_whitespace_thr det ct dir thr = Inr (0, int (width det), 0, int (height det))"
proof -
  have w: "0 < width det" and h: "0 < height det"
    using assms(2) by (simp_all add: touches_all_edges_def)
  have c: "axis_bounds (column_content det ct thr) (width det) = (0, int (width det))"
    using assms(2) by (intro axis_bounds_edges) (simp_all add: touches_all_edges_def)
  have r: "axis_bounds (row_content det ct thr) (height det) = (0, int (height det))"
    using assms(2) by (intro axis_bounds_edges) (simp_all add: touches_all_edges_def)
  show ?thesis
    unfolding detect_closed_form[OF assms(1)] c r if_cancel
    by (simp add: clamp_box_full[OF w h])
qed

text \<open>
  Claim C6. When the content of the detection view touches all four edges, a trim with margin 0
  detects the box \<open>(0, width, 0, height)\<close> and its final image is the input image, so that a
  second run on that image detects the same box and returns the same image.
\<close>

theorem trim_idempotent_when_tight:
  assumes "wf_image orig"
    and "touches_all_edges (rgb_for_detection orig color_type) color_type 70"
  shows "detect_whitespace (rgb_for_detection orig color_type) color_type direction (Some 70)
           = Inr (0, int (width orig), 0, int (height orig))
         \<and> trim_final orig 0 color_type direction = Inr orig
         \<and> (\<exists>out. trim_final orig 0 color_type direction = Inr out
               \<and> detect_whitespace (rgb_for_detection out color_type) color_type direction (Some 70)
                   = Inr (0, int (width orig), 0, int (height orig))
               \<and> trim_final out 0 color_type direction = Inr out)"
proof -
  have d: "detect_whitespace (rgb_for_detection orig color_type) color_type direction (Some 70)
           = Inr (0, int (width orig), 0, int (height orig))"
    using touching_box[OF _ assms(2), of direction] by (simp add: detect_whitespace_def)
  have t: "trim_final orig 0 color_type direction = Inr orig"
    by (simp add: trim_final_def d finish_trim_def crop_full[OF assms(1)])
  show ?thesis using d t by simp
qed

theorem trim_idempotent_when_tight_witness:
  "wf_image black_2x2
   \<and> touches_all_edges (rgb_for_detection black_2x2 ''white'') ''white'' 70
   \<and> detect_whitespace (rgb_for_detection black_2x2 ''white'') ''white'' ''both'' (Some 70)
       = Inr (0, 2, 0, 2)
   \<and> trim_final black_2x2 0 ''white'' ''both'' = Inr black_2x2"
proof -
  have w: "wf_image black_2x2" by code_simp
  have e: "touches_all_edges (rgb_for_detection black_2x2 ''white'') ''white'' 70" by code_simp
  have s: "width black_2x2 = 2" "height black_2x2 = 2"
    by (simp_all add: black_2x2_def rgb_image_def)
  show ?thesis
    using w e trim_idempotent_when_tight [OF w e, of "''both''"] by (simp add: s)
qed


section \<open>The compositor: what reaches the encoder\<close>

lemma for_encoder_flat:
  assumes "ext \<in> set [''.jpg'', ''.jpeg'', ''.bmp'']"
  shows "''A'' \<notin> set (getbands (mode (for_encoder ext img)))
         \<and> mode (for_encoder ext img) \<in> set [Mode_RGB, Mode_L]"
proof (cases "has_alpha img \<or> mode img \<notin> set [Mode_RGB, Mode_L]")
  case True
  with assms have "for_encoder ext img = convert_RGB img" by (simp add: for_encoder_def)
  then show ?thesis by simp
next
  case False
  with assms have "for_encoder ext img = img" by (simp add: for_encoder_def)
  with False show ?thesis by auto
qed

lemma for_encoder_keeps:
  assumes "ext \<in> set [''.png'', ''.webp'', ''.gif'', ''.tiff'']"
  shows "for_encoder ext img = img"
  using assms by (auto simp: for_encoder_def)

lemma image_save_stored:
  assumes "fst (image_save fs img path) = None"
  shows "\<exists>fmt. format_of_ext fs (str_lower (snd (splitext path))) = Some fmt
           \<and> encoder_accepts fs fmt (mode img)
           \<and> map_of (files (snd (image_save fs img path))) path
               = Some (ImageFile (written fs fmt img))"
  using assms
  by (auto simp: image_save_def Let_def update_conv' split: option.splits if_splits)

lemma trim_whitespace_stored:
  assumes "fst (trim_whitespace fs image_path output_path p ct dir) = None"
  shows "\<exists>orig final fs1 fmt.
           image_open fs image_path = Inr orig \<and> trim_final orig p ct dir = Inr final
           \<and> makedirs fs (dirname output_path) = (None, fs1)
           \<and> format_of_ext fs1 (str_lower (snd (splitext output_path))) = Some fmt
           \<and> encoder_accepts fs1 fmt
                (mode (for_encoder (str_lower (snd (splitext output_path))) final))
           \<and> map_of (files (snd (trim_whitespace fs image_path output_path p ct dir))) output_path
               = Some (ImageFile (written fs1 fmt
                    (for_encoder (str_lower (snd (splitext output_path))) final)))"
proof -
  obtain orig where o: "image_open fs image_path = Inr orig"
    using assms by (cases "image_open fs image_path") (simp_all add: trim_whitespace_def)
  obtain final where f: "trim_final orig p ct dir = Inr final"
    using assms o by (cases "trim_final orig p ct dir") (simp_all add: trim_whitespace_def)
  obtain res fs1 where m0: "makedirs fs (dirname output_path) = (res, fs1)"
    by (cases "makedirs fs (dirname output_path)")
  have "res = None"
    using assms o f m0 by (cases res) (simp_all add: trim_whitespace_def)
  with m0 have m: "makedirs fs (dirname output_path) = (None, fs1)" by simp
  have t: "trim_whitespace fs image_path output_path p ct dir
           = image_save fs1 (for_encoder (str_lower (snd (splitext output_path))) final) output_path"
    by (simp add: trim_whitespace_def o f m)
  from image_save_stored[of fs1 _ output_path] assms
  show ?thesis unfolding t using o f m by blast
qed

lemma standard_formats:
  "ext \<in> set [''.jpg'', ''.jpeg''] \<Longrightarrow> format_of_ext fs ext = Some ''JPEG''"
  "format_of_ext fs ''.bmp'' = Some ''BMP''"
  "format_of_ext fs ''.png'' = Some ''PNG''"
  "format_of_ext fs ''.tiff'' = Some ''TIFF''"
  by (auto simp: format_of_ext_def)

lemma flat_raster_fields [simp]:
  "mode (flat_raster m src w h) = m"
  "width (flat_raster m src w h) = w"
  "height (flat_raster m src w h) = h"
  "transparency (flat_raster m src w h) = None"
  by (simp_all add: flat_raster_def)

lemma flat_raster_opaque:
  assumes "x < w" "y < h"
  shows "alpha_at (flat_raster m src w h) x y = 255"
  using assms
  by (simp add: flat_raster_def alpha_at_def pixel_at_def opaque_def split: prod.splits)

lemma written_flat:
  assumes "fmt \<in> set [''JPEG'', ''BMP'']" "mode img \<in> set [Mode_RGB, Mode_L]"
  shows "mode (written fs fmt img) = mode img \<and> \<not> has_alpha (written fs fmt img)
         \<and> width (written fs fmt img) = width img \<and> height (written fs fmt img) = height img
         \<and> (\<forall>x y. x < width img \<and> y < height img \<longrightarrow> alpha_at (written fs fmt img) x y = 255)"
proof -
  obtain src where w: "written fs fmt img = flat_raster (mode img) src (width img) (height img)"
    using assms by (auto simp: written_def)
  show ?thesis
    unfolding w using assms(2) by (auto simp: has_alpha_def flat_raster_opaque)
qed

lemma written_exact:
  "written fs ''PNG'' img = img"
  "''A'' \<in> set (getbands (mode img)) \<Longrightarrow> written fs ''TIFF'' img = img\<lparr>transparency := None\<rparr>"
  by (simp_all add: written_def)

lemma paste_pixel_at:
  assumes "X < width dst" "Y < height dst"
  shows "pixel_at (paste dst im (ox, oy) matte) X Y =
         (let src = (if mode im = mode dst then im
                     else if mode dst = Mode_RGBA then convert_RGBA im else convert_RGB im);
              sx = int X - ox; sy = int Y - oy
          in if 0 \<le> sx \<and> sx < int (width src) \<and> 0 \<le> sy \<and> sy < int (height src)
             then (case matte of
                     None \<Rightarrow> store (mode dst) (pixel_at src (nat sx) (nat sy))
                   | Some mk \<Rightarrow>
                       store (mode dst)
                         (blend_pixel (alpha_at mk (nat sx) (nat sy))
                            (pixel_at dst X Y) (pixel_at src (nat sx) (nat sy))))
             else pixel_at dst X Y)"
  using assms unfolding paste_def pixel_at_def by (simp add: Let_def split: option.splits)

lemma blank_pixel_at:
  assumes "X < w" "Y < h"
  shows "pixel_at (image_new m w h fill) X Y = fill"
  using assms by (simp add: image_new_def pixel_at_def)

lemma blend_clear: "blend 0 0 v = 0"
  by (simp add: blend_def div255_def)

lemma opaque_without_alpha:
  assumes "wf_image img" "\<not> has_alpha img" "x < width img" "y < height img"
  shows "alpha_at img x y = 255"
proof -
  have "list_all (list_all (\<lambda>p. case p of (r, g, b, a) \<Rightarrow> a = 255)) (data img)"
    and "length (data img) = height img"
    and "list_all (\<lambda>row. length row = width img) (data img)"
    using assms(1,2) by (auto simp: wf_image_def)
  then have "case data img ! y ! x of (r, g, b, a) \<Rightarrow> a = 255"
    using assms(3,4) by (simp add: list_all_length)
  then show ?thesis by (auto simp: alpha_at_def pixel_at_def split: prod.splits)
qed

lemma margin_px_nonneg: "0 \<le> margin_px n p"
proof (cases "p > 0")
  case True
  then have "0 \<le> int n * p" by simp
  from py_int_percent[OF this] True have "margin_px n p = (int n * p) div 100"
    unfolding margin_px_def by (simp only: if_True)
  with True show ?thesis by (simp add: pos_imp_zdiv_nonneg_iff)
next
  case False
  then show ?thesis by (simp add: margin_px_def)
qed

lemma margin_alpha_kept:
  assumes ha: "has_alpha cropped" and p: "0 < p"
    and size: "width cropped = nat (r - l)" "height cropped = nat (b - t)"
    and box: "l \<le> r" "t \<le> b"
    and xy: "x' < width cropped" "y' < height cropped"
    and a: "alpha_at cropped x' y' = 0"
    and m: "add_margin cropped w h p (l, r, t, b) = Inr final"
  shows "alpha_at final (nat (int x' + margin_px w p)) (nat (int y' + margin_px h p)) = 0"
proof -
  define mw where "mw = margin_px w p"
  define mh where "mh = margin_px h p"
  have mw0: "0 \<le> mw" and mh0: "0 \<le> mh" by (simp_all add: mw_def mh_def margin_px_nonneg)
  have pw: "py_int (real_of_int (int w * p) / 100) = mw"
    and ph: "py_int (real_of_int (int h * p) / 100) = mh"
    using p by (simp_all add: mw_def mh_def margin_px_def)
  define canvas where "canvas = image_new Mode_RGBA (nat (r - l + 2 * mw)) (nat (b - t + 2 * mh)) (0, 0, 0, 0)"
  have nn: "\<not> (r - l + 2 * mw < 0 \<or> b - t + 2 * mh < 0)" using box mw0 mh0 by simp
  have fin: "final = paste canvas cropped (mw, mh)
                      (if mode cropped = Mode_RGBA then Some cropped else None)"
    using m ha nn unfolding add_margin_def prod.case pw ph Let_def image_new_checked_def canvas_def
    by (simp split: if_splits)
  define X where "X = nat (int x' + mw)"
  define Y where "Y = nat (int y' + mh)"
  have X: "X < width canvas"
    using xy(1) size(1) mw0 unfolding canvas_def X_def image_new_fields by arith
  have Y: "Y < height canvas"
    using xy(2) size(2) mh0 unfolding canvas_def Y_def image_new_fields by arith
  have sx: "int X - mw = int x'" and sy: "int Y - mh = int y'"
    using mw0 mh0 by (simp_all add: X_def Y_def)
  have cm: "mode canvas = Mode_RGBA" by (simp add: canvas_def)
  have cp: "pixel_at canvas X Y = (0, 0, 0, 0)"
    using X Y unfolding canvas_def by (simp add: blank_pixel_at)
  obtain cr cg cb where px: "pixel_at cropped x' y' = (cr, cg, cb, 0)"
    using a by (cases "pixel_at cropped x' y'") (simp add: alpha_at_def)
  have "alpha_at final X Y = 0"
  proof (cases "mode cropped = Mode_RGBA")
    case True
    then show ?thesis
      using xy a px cp
      by (simp add: fin alpha_at_def paste_pixel_at[OF X Y] cm sx sy Let_def store_def
          blend_pixel_def blend_clear)
  next
    case False
    have "pixel_at (convert_RGBA cropped) x' y' = pixel_at cropped x' y'"
      by (simp add: convert_RGBA_def pixel_at_def)
    moreover have "width (convert_RGBA cropped) = width cropped"
      "height (convert_RGBA cropped) = height cropped"
      by (simp_all add: convert_RGBA_def)
    ultimately show ?thesis
      using False xy px
      by (simp add: fin alpha_at_def paste_pixel_at[OF X Y] cm sx sy Let_def store_def)
  qed
  then show ?thesis by (simp add: X_def Y_def mw_def mh_def)
qed

lemma transparency_kept:
  assumes wf: "wf_image orig"
    and d: "detect_whitespace (rgb_for_detection orig ct) ct dir (Some 70) = Inr (l, r, t, b)"
    and f: "trim_final orig p ct dir = Inr final"
    and x: "x < width orig" "l \<le> int x" "int x < r"
    and y: "y < height orig" "t \<le> int y" "int y < b"
    and a: "alpha_at orig x y = 0"
  shows "alpha_at final (nat (int x - l + margin_px (width orig) p))
                        (nat (int y - t + margin_px (height orig) p)) = 0"
proof -
  have box: "l \<le> r" "t \<le> b" "0 \<le> l" "0 \<le> t"
    using detection_box_nonempty[OF d] by simp_all
  define cropped where "cropped =
    orig\<lparr>width := nat (r - l), height := nat (b - t),
         data := map (\<lambda>y. map (\<lambda>x. source_pixel orig (l + int x) (t + int y))
                              [0..<nat (r - l)])
                     [0..<nat (b - t)]\<rparr>"
  have c: "crop orig (l, t, r, b) = Inr cropped"
    unfolding cropped_def by (rule crop_ok[OF box(1,2)])
  define x' where "x' = nat (int x - l)"
  define y' where "y' = nat (int y - t)"
  have xy: "x' < nat (r - l)" "y' < nat (b - t)"
    using x y by (simp_all add: x'_def y'_def)
  have shift: "l + int x' = int x" "t + int y' = int y"
    using x y by (simp_all add: x'_def y'_def)
  have "pixel_at cropped x' y' = source_pixel orig (l + int x') (t + int y')"
    using xy by (simp add: cropped_def pixel_at_def)
  also have "\<dots> = pixel_at orig x y"
    using x y by (simp add: shift source_pixel_def)
  finally have ca: "alpha_at cropped x' y' = 0" using a by (simp add: alpha_at_def)
  have fin: "finish_trim orig p (l, r, t, b) = Inr final"
    using f by (simp add: trim_final_def d)
  show ?thesis
  proof (cases "p > 0")
    case False
    then have "final = cropped" using fin by (simp add: finish_trim_def c)
    with False ca show ?thesis by (simp add: margin_px_def x'_def y'_def)
  next
    case True
    have m: "add_margin cropped (width orig) (height orig) p (l, r, t, b) = Inr final"
      using fin True by (simp add: finish_trim_def c)
    have "has_alpha orig"
      using opaque_without_alpha[OF wf _ x(1) y(1)] a by auto
    then have ha: "has_alpha cropped" by (simp add: has_alpha_def cropped_def)
    have "alpha_at final (nat (int x' + margin_px (width orig) p))
                         (nat (int y' + margin_px (height orig) p)) = 0"
      using xy ca
      by (intro margin_alpha_kept[OF ha True _ _ box(1,2) _ _ _ m]) (simp_all add: cropped_def)
    moreover have "int x' = int x - l" "int y' = int y - t"
      using x y by (simp_all add: x'_def y'_def)
    ultimately show ?thesis by simp
  qed
qed



section \<open>The batch runner: its log\<close>

lemma trimmed_append [simp]: "trimmed (xs @ ys) = trimmed xs @ trimmed ys"
  by (simp add: trimmed_def)

lemma without_progress_append [simp]:
  "without_progress (xs @ ys) = without_progress xs @ without_progress ys"
  by (simp add: without_progress_def)

lemma failures_append [simp]: "failures (xs @ ys) = failures xs @ failures ys"
  by (simp add: failures_def)

lemma log_readings [simp]:
  "trimmed [] = []" "trimmed [Trim src res] = [(src, res)]"
  "trimmed [CancelCheck c] = []" "trimmed [Progress i n] = []"
  "without_progress [] = []" "without_progress [Trim src res] = [Trim src res]"
  "without_progress [CancelCheck c] = [CancelCheck c]" "without_progress [Progress i n] = []"
  "failures [] = []" "checked_files [] = []"
  "checked_files ((src, res) # ps) = CancelCheck False # Trim src res # checked_files ps"
  by (simp_all add: trimmed_def without_progress_def failures_def checked_files_def)

lemma failures_empty: "failures ps = [] \<longleftrightarrow> list_all (\<lambda>(src, res). res = None) ps"
  by (induction ps) (auto simp: failures_def split: option.splits)

lemma report_log [simp]:
  "errors (report cb i n s) = errors s"
  "trimmed (trace (report cb i n s)) = trimmed (trace s)"
  "without_progress (trace (report cb i n s)) = without_progress (trace s)"
  by (simp_all add: report_def split: option.splits)

lemma process_one_log:
  "\<exists>res. trace (process_one ct dir p src s) = trace s @ [Trim src res]
         \<and> errors (process_one ct dir p src s) = errors s @ failures [(src, res)]"
  by (auto simp: process_one_def Let_def failures_def split: prod.splits option.splits)

lemma run_loop_log:
  "\<exists>ps k. k \<le> length its \<and> map fst ps = take k (map snd its)
     \<and> trimmed (trace (run_loop ct dir p cb canc n its s)) = trimmed (trace s) @ ps
     \<and> errors (run_loop ct dir p cb canc n its s) = errors s @ failures ps
     \<and> (canc = None \<longrightarrow> k = length its)
     \<and> (canc \<noteq> None \<longrightarrow>
          without_progress (trace (run_loop ct dir p cb canc n its s))
          = without_progress (trace s) @ checked_files ps
            @ (if k < length its then [CancelCheck True] else []))"
proof (induction its arbitrary: s)
  case Nil
  show ?case by (intro exI[of _ "[]"] exI[of _ 0]) simp
next
  case (Cons it its)
  obtain i src where it: "it = (i, src)" by (cases it)
  obtain stop s1 where c: "check_cancel canc s = (stop, s1)" by (cases "check_cancel canc s")
  have c_none: "canc = None \<Longrightarrow> \<not> stop \<and> s1 = s"
    using c by (simp add: check_cancel_def)
  have c_some: "canc \<noteq> None \<Longrightarrow>
      errors s1 = errors s \<and> trace s1 = trace s @ [CancelCheck stop]"
    using c by (auto simp: check_cancel_def split: option.splits prod.splits)
  show ?case
  proof (cases stop)
    case True
    then have r: "run_loop ct dir p cb canc n (it # its) s = s1"
      by (simp add: it c)
    have some: "canc \<noteq> None" using True c_none by blast
    show ?thesis
      unfolding r using c_some[OF some] True some
      by (intro exI[of _ "[]"] exI[of _ 0]) simp
  next
    case False
    define s2 where "s2 = process_one ct dir p src s1"
    define s3 where "s3 = report cb i n s2"
    have r: "run_loop ct dir p cb canc n (it # its) s = run_loop ct dir p cb canc n its s3"
      using False by (simp add: it c s2_def s3_def Let_def)
    obtain res where t2: "trace s2 = trace s1 @ [Trim src res]"
      and e2: "errors s2 = errors s1 @ failures [(src, res)]"
      unfolding s2_def using process_one_log by blast
    have t3: "trimmed (trace s3) = trimmed (trace s2)"
      "without_progress (trace s3) = without_progress (trace s2)" "errors s3 = errors s2"
      by (simp_all add: s3_def)
    obtain ps k where ih: "k \<le> length its" "map fst ps = take k (map snd its)"
      "trimmed (trace (run_loop ct dir p cb canc n its s3)) = trimmed (trace s3) @ ps"
      "errors (run_loop ct dir p cb canc n its s3) = errors s3 @ failures ps"
      "canc = None \<longrightarrow> k = length its"
      "canc \<noteq> None \<longrightarrow>
          without_progress (trace (run_loop ct dir p cb canc n its s3))
          = without_progress (trace s3) @ checked_files ps
            @ (if k < length its then [CancelCheck True] else [])"
      using Cons.IH[of s3] by blast
    have t1: "trimmed (trace s1) = trimmed (trace s)" "errors s1 = errors s"
      using c_none c_some by (cases "canc = None"; simp)+
    have w1: "canc \<noteq> None \<Longrightarrow>
        without_progress (trace s1) = without_progress (trace s) @ [CancelCheck False]"
      using c_some False by simp
    have fl: "failures ((src, res) # ps) = failures [(src, res)] @ failures ps"
      by (simp add: failures_def)
    show ?thesis
      unfolding r
    proof (intro exI[of _ "(src, res) # ps"] exI[of _ "Suc k"] conjI impI)
      show "Suc k \<le> length (it # its)" using ih(1) by simp
      show "map fst ((src, res) # ps) = take (Suc k) (map snd (it # its))"
        using ih(2) by (simp add: it)
      show "trimmed (trace (run_loop ct dir p cb canc n its s3))
            = trimmed (trace s) @ (src, res) # ps"
        by (simp add: ih(3) t3 t2 t1)
      show "errors (run_loop ct dir p cb canc n its s3) = errors s @ failures ((src, res) # ps)"
        by (simp add: ih(4) t3 e2 t1 fl)
      show "Suc k = length (it # its)" if "canc = None" using ih(5) that by simp
      show "without_progress (trace (run_loop ct dir p cb canc n its s3))
            = without_progress (trace s) @ checked_files ((src, res) # ps)
              @ (if Suc k < length (it # its) then [CancelCheck True] else [])"
        if "canc \<noteq> None"
        using ih(6) that by (simp add: t3 t2 w1[OF that])
    qed
  qed
qed

lemma process_targets_log:
  "\<exists>k. k \<le> length (collect_targets fs inputs)
     \<and> map fst (trimmed (trace (process_targets fs e inputs ct dir p cb canc)))
         = take k (collect_targets fs inputs)
     \<and> errors (process_targets fs e inputs ct dir p cb canc)
         = failures (trimmed (trace (process_targets fs e inputs ct dir p cb canc)))
     \<and> (canc = None \<longrightarrow> k = length (collect_targets fs inputs))
     \<and> (canc \<noteq> None \<longrightarrow>
          without_progress (trace (process_targets fs e inputs ct dir p cb canc))
          = checked_files (trimmed (trace (process_targets fs e inputs ct dir p cb canc)))
            @ (if k < length (collect_targets fs inputs) then [CancelCheck True] else []))"
proof -
  define targets where "targets = collect_targets fs inputs"
  define s0 where
    "s0 = report cb 0 (int (length targets)) \<lparr>errors = [], fs_now = fs, env = e, trace = []\<rparr>"
  have pt: "process_targets fs e inputs ct dir p cb canc
            = run_loop ct dir p cb canc (int (length targets)) (enumerate1 targets) s0"
    by (simp add: process_targets_def Let_def targets_def s0_def)
  have "length (map int [1..<Suc (length targets)]) = length targets"
    by (simp del: upt_Suc)
  then have en: "map snd (enumerate1 targets) = targets"
    "length (enumerate1 targets) = length targets"
    unfolding enumerate1_def by (simp_all only: map_snd_zip length_zip min.idem)
  have z: "trimmed (trace s0) = []" "errors s0 = []" "without_progress (trace s0) = []"
    by (simp_all add: s0_def)
  from run_loop_log[of "enumerate1 targets" ct dir p cb canc "int (length targets)" s0]
  show ?thesis
    unfolding pt en z targets_def[symmetric] by (auto simp: en)
qed


lemma process_one_fields:
  "env (process_one ct dir p src s) = env s"
  "trace (process_one ct dir p src s)
   = trace s @ [Trim src (fst (trim_whitespace (fs_now s) src (remake_path src) p ct dir))]"
  "errors (process_one ct dir p src s)
   = (case fst (trim_whitespace (fs_now s) src (remake_path src) p ct dir) of
        None \<Rightarrow> errors s
      | Some e \<Rightarrow> errors s @ [src @ '': '' @ str_of e])"
  "fs_now (process_one ct dir p src s)
   = snd (trim_whitespace (fs_now s) src (remake_path src) p ct dir)"
  by (simp_all add: process_one_def Let_def split: prod.splits)

lemma trim_fails_at_open:
  "image_open fs src = Inl e \<Longrightarrow> trim_whitespace fs src out p ct dir = (Some e, fs)"
  by (simp add: trim_whitespace_def)

lemma enumerate1_five:
  "enumerate1 [t1, t2, t3, t4, t5] = [(1, t1), (2, t2), (3, t3), (4, t4), (5, t5)]"
  by (simp add: enumerate1_def upt_conv_Cons)

lemma five_fs_targets:
  "collect_targets five_fs [''d''] = [''d/1.png'', ''d/2.png'', ''d/3.jpg'', ''d/4.gif'', ''d/5.PNG'']"
  by code_simp

lemma five_fs_opens:
  "image_open five_fs ''d/1.png''
   = Inl (UnidentifiedImageError, ''cannot identify image file '' @ py_repr ''d/1.png'')"
  "image_open five_fs ''d/2.png''
   = Inl (UnidentifiedImageError, ''cannot identify image file '' @ py_repr ''d/2.png'')"
  "image_open five_fs ''d/3.jpg''
   = Inl (UnidentifiedImageError, ''cannot identify image file '' @ py_repr ''d/3.jpg'')"
  "image_open five_fs ''d/4.gif''
   = Inl (UnidentifiedImageError, ''cannot identify image file '' @ py_repr ''d/4.gif'')"
  by code_simp+

lemma five_fs_last:
  "fst (trim_whitespace five_fs ''d/5.PNG'' (remake_path ''d/5.PNG'') 0 ''white'' ''both'') = None"
  by code_simp

lemmas five_fs_trims =
  five_fs_opens [THEN trim_fails_at_open] five_fs_last


lemma two_files_then_cancelled:
  assumes "collect_targets fs inputs = [t1, t2, t3, t4, t5]"
  shows "map fst (trimmed (trace (process_targets fs False inputs ct dir p
                                    (Some flag_at_two_done) (Some read_flag)))) = [t1, t2]"
  unfolding process_targets_def assms Let_def enumerate1_five
  by (simp add: check_cancel_def read_flag_def report_def flag_at_two_done_def
      process_one_fields Let_def trimmed_def)

text \<open>
  Claim C9, as the code has it. With a cancellation predicate, the log of a run without its
  progress reports is: for each trimmed file one check answered False and then the trim, and,
  when targets are left over, one last check answered True after which nothing follows; the
  trimmed files are the first \<open>k\<close> targets and the error list holds the failures among them.
  For five targets and a flag that the caller raises in the progress report announcing two
  files done (the third report, since \<open>(0, total)\<close> is reported before the first file), exactly
  the first two targets are trimmed.
\<close>

theorem cancellation_checked_before_each_file:
  "(\<exists>k. k \<le> length (collect_targets fs inputs)
       \<and> map fst (trimmed (trace
             (process_targets fs e inputs color_type direction p progress_cb (Some c))))
           = take k (collect_targets fs inputs)
       \<and> without_progress (trace
             (process_targets fs e inputs color_type direction p progress_cb (Some c)))
           = checked_files (trimmed (trace
               (process_targets fs e inputs color_type direction p progress_cb (Some c))))
             @ (if k < length (collect_targets fs inputs) then [CancelCheck True] else [])
       \<and> errors (process_targets fs e inputs color_type direction p progress_cb (Some c))
           = failures (trimmed (trace
               (process_targets fs e inputs color_type direction p progress_cb (Some c)))))
   \<and> (collect_targets fs inputs = [t1, t2, t3, t4, t5] \<longrightarrow>
        map fst (trimmed (trace
           (process_targets fs False inputs color_type direction p
              (Some flag_at_two_done) (Some read_flag)))) = [t1, t2]
        \<and> errors (process_targets fs False inputs color_type direction p
                    (Some flag_at_two_done) (Some read_flag))
            = failures (trimmed (trace
                (process_targets fs False inputs color_type direction p
                   (Some flag_at_two_done) (Some read_flag)))))"
proof (intro conjI impI)
  define S where "S = process_targets fs e inputs color_type direction p progress_cb (Some c)"
  define n where "n = length (collect_targets fs inputs)"
  have "\<exists>k. k \<le> n \<and> map fst (trimmed (trace S)) = take k (collect_targets fs inputs)
      \<and> errors S = failures (trimmed (trace S))
      \<and> (Some c = None \<longrightarrow> k = n)
      \<and> (Some c \<noteq> None \<longrightarrow>
           without_progress (trace S)
           = checked_files (trimmed (trace S)) @ (if k < n then [CancelCheck True] else []))"
    unfolding S_def n_def by (rule process_targets_log)
  then obtain k where k: "k \<le> n"
    "map fst (trimmed (trace S)) = take k (collect_targets fs inputs)"
    "errors S = failures (trimmed (trace S))"
    "without_progress (trace S)
     = checked_files (trimmed (trace S)) @ (if k < n then [CancelCheck True] else [])"
    by blast
  have "k \<le> n \<and> map fst (trimmed (trace S)) = take k (collect_targets fs inputs)
      \<and> without_progress (trace S)
        = checked_files (trimmed (trace S)) @ (if k < n then [CancelCheck True] else [])
      \<and> errors S = failures (trimmed (trace S))"
    using k by simp
  then show "\<exists>k. k \<le> length (collect_targets fs inputs)
       \<and> map fst (trimmed (trace
             (process_targets fs e inputs color_type direction p progress_cb (Some c))))
           = take k (collect_targets fs inputs)
       \<and> without_progress (trace
             (process_targets fs e inputs color_type direction p progress_cb (Some c)))
           = checked_files (trimmed (trace
               (process_targets fs e inputs color_type direction p progress_cb (Some c))))
             @ (if k < length (collect_targets fs inputs) then [CancelCheck True] else [])
       \<and> errors (process_targets fs e inputs color_type direction p progress_cb (Some c))
           = failures (trimmed (trace
               (process_targets fs e inputs color_type direction p progress_cb (Some c))))"
    unfolding S_def n_def by (rule exI)
next
  assume "collect_targets fs inputs = [t1, t2, t3, t4, t5]"
  then show "map fst (trimmed (trace
           (process_targets fs False inputs color_type direction p
              (Some flag_at_two_done) (Some read_flag)))) = [t1, t2]"
    by (rule two_files_then_cancelled)
next
  have "\<exists>k. k \<le> length (collect_targets fs inputs)
     \<and> map fst (trimmed (trace (process_targets fs False inputs color_type direction p
                                   (Some flag_at_two_done) (Some read_flag))))
         = take k (collect_targets fs inputs)
     \<and> errors (process_targets fs False inputs color_type direction p
                 (Some flag_at_two_done) (Some read_flag))
         = failures (trimmed (trace (process_targets fs False inputs color_type direction p
                                       (Some flag_at_two_done) (Some read_flag))))
     \<and> (Some read_flag = None \<longrightarrow> k = length (collect_targets fs inputs))
     \<and> (Some read_flag \<noteq> None \<longrightarrow>
          without_progress (trace (process_targets fs False inputs color_type direction p
                                     (Some flag_at_two_done) (Some read_flag)))
          = checked_files (trimmed (trace (process_targets fs False inputs color_type direction p
                                             (Some flag_at_two_done) (Some read_flag))))
            @ (if k < length (collect_targets fs inputs) then [CancelCheck True] else []))"
    by (rule process_targets_log)
  then show "errors (process_targets fs False inputs color_type direction p
                    (Some flag_at_two_done) (Some read_flag))
            = failures (trimmed (trace
                (process_targets fs False inputs color_type direction p
                   (Some flag_at_two_done) (Some read_flag))))"
    by blast
qed

theorem cancellation_checked_before_each_file_witness:
  "collect_targets five_fs [''d''] = [''d/1.png'', ''d/2.png'', ''d/3.jpg'', ''d/4.gif'', ''d/5.PNG'']
   \<and> map fst (trimmed (trace
         (process_targets five_fs False [''d''] ''white'' ''both'' 0
            (Some flag_at_two_done) (Some read_flag)))) = [''d/1.png'', ''d/2.png'']
   \<and> failures (trimmed (trace
         (process_targets five_fs False [''d''] ''white'' ''both'' 0
            (Some flag_at_two_done) (Some read_flag))))
       = [''d/1.png: cannot identify image file '' @ py_repr ''d/1.png'',
          ''d/2.png: cannot identify image file '' @ py_repr ''d/2.png'']"
proof -
  have e: "errors (process_targets five_fs False [''d''] ''white'' ''both'' 0
                     (Some flag_at_two_done) (Some read_flag))
           = [''d/1.png: cannot identify image file '' @ py_repr ''d/1.png'',
              ''d/2.png: cannot identify image file '' @ py_repr ''d/2.png'']"
    unfolding process_targets_def five_fs_targets Let_def
    by (simp add: enumerate1_five check_cancel_def report_def Let_def process_one_fields
        five_fs_trims str_of_def read_flag_def flag_at_two_done_def)
  have t: "map fst (trimmed (trace
         (process_targets five_fs False [''d''] ''white'' ''both'' 0
            (Some flag_at_two_done) (Some read_flag)))) = [''d/1.png'', ''d/2.png'']
      \<and> errors (process_targets five_fs False [''d''] ''white'' ''both'' 0
                     (Some flag_at_two_done) (Some read_flag))
        = failures (trimmed (trace
            (process_targets five_fs False [''d''] ''white'' ''both'' 0
               (Some flag_at_two_done) (Some read_flag))))"
    using five_fs_targets cancellation_checked_before_each_file
      [of five_fs "[''d'']" False "''white''" "''both''" 0 "Some flag_at_two_done" read_flag
          "''d/1.png''" "''d/2.png''" "''d/3.jpg''" "''d/4.gif''" "''d/5.PNG''"]
    by blast
  show ?thesis using five_fs_targets e t by simp
qed

text \<open>
  The claim as worded: a flag that becomes true right after the second progress callback
  issued. That callback is \<open>(1, total)\<close>, and the run trims one file, not two.
\<close>

theorem cancel_after_second_callback_counterexample:
  "map fst (trimmed (trace
      (process_targets five_fs (0::nat) [''d''] ''white'' ''both'' 0
         (Some count_report) (Some seen_two_reports)))) = [''d/1.png'']
   \<and> length (trimmed (trace
      (process_targets five_fs (0::nat) [''d''] ''white'' ''both'' 0
         (Some count_report) (Some seen_two_reports)))) \<noteq> 2"
  unfolding process_targets_def five_fs_targets Let_def
  by (simp add: enumerate1_five check_cancel_def report_def Let_def process_one_fields
      five_fs_trims count_report_def seen_two_reports_def trimmed_def)

end
